theory Spec2Isabelle
  imports Complex_Main
begin

section \<open>NumPy arrays and the exceptions of the notebook\<close>

text \<open>
  The notebook \<^verbatim>\<open>examples/Algorithm_Choice.ipynb\<close> defines two functions, \<^verbatim>\<open>prec\<close> and
  \<^verbatim>\<open>qrec\<close>, and one cell that compares their results with \<^verbatim>\<open>1/3.**n\<close>. None of them
  raises an exception of its own; the only failures are the ones NumPy raises:
  \<^item> \<^verbatim>\<open>np.zeros(k)\<close> with \<open>k < 0\<close>: \<^verbatim>\<open>ValueError: negative dimensions are not allowed\<close>;
  \<^item> \<^verbatim>\<open>a[i]\<close> with \<open>i\<close> outside \<open>-len(a) .. len(a) - 1\<close>: \<^verbatim>\<open>IndexError\<close>;
  \<^item> an elementwise operation on arrays whose shapes do not broadcast:
    \<^verbatim>\<open>ValueError: operands could not be broadcast together\<close>.
  A one-dimensional array is a list. Memory is taken as unbounded.
\<close>

datatype error = NegativeDimensions | IndexOutOfBounds | BroadcastMismatch

definition and_then :: "error + 'a \<Rightarrow> ('a \<Rightarrow> error + 'b) \<Rightarrow> error + 'b" where
  "and_then m f = (case m of Inl e \<Rightarrow> Inl e | Inr x \<Rightarrow> f x)"

text \<open>The operations on floating-point numbers that the notebook uses, as a parameter:
  the conversion of an integer, \<^verbatim>\<open>*\<close>, \<^verbatim>\<open>-\<close>, \<^verbatim>\<open>/\<close>, \<^verbatim>\<open>np.abs\<close> and \<^verbatim>\<open>**\<close> with an
  integer exponent (an element of \<^verbatim>\<open>np.arange\<close>). The code runs on \<open>binary64\<close> below;
  \<open>exact\<close> is the arithmetic of the rationals, without rounding.\<close>

record 'a arith =
  a_lit :: "int \<Rightarrow> 'a"
  a_mul :: "'a \<Rightarrow> 'a \<Rightarrow> 'a"
  a_sub :: "'a \<Rightarrow> 'a \<Rightarrow> 'a"
  a_div :: "'a \<Rightarrow> 'a \<Rightarrow> 'a"
  a_abs :: "'a \<Rightarrow> 'a"
  a_pow :: "'a \<Rightarrow> int \<Rightarrow> 'a"

text \<open>\<^verbatim>\<open>np.zeros(k)\<close>\<close>

definition zeros :: "'a arith \<Rightarrow> int \<Rightarrow> error + 'a list" where
  "zeros ar k = (if k < 0 then Inl NegativeDimensions else Inr (replicate (nat k) (a_lit ar 0)))"

text \<open>The position an index denotes: a negative index counts from the end.\<close>

definition position :: "'a list \<Rightarrow> int \<Rightarrow> error + nat" where
  "position a i =
     (let n = int (length a); k = (if i < 0 then i + n else i)
      in if 0 \<le> k \<and> k < n then Inr (nat k) else Inl IndexOutOfBounds)"

text \<open>\<^verbatim>\<open>a[i]\<close> and \<^verbatim>\<open>a[i] = v\<close>\<close>

definition getitem :: "'a list \<Rightarrow> int \<Rightarrow> error + 'a" where
  "getitem a i = and_then (position a i) (\<lambda>k. Inr (a ! k))"

definition setitem :: "'a list \<Rightarrow> int \<Rightarrow> 'a \<Rightarrow> error + 'a list" where
  "setitem a i v = and_then (position a i) (\<lambda>k. Inr (a[k := v]))"

text \<open>\<^verbatim>\<open>for j in js: a = body(a, j)\<close>, stopping at the first exception.\<close>

fun for_each :: "int list \<Rightarrow> ('s \<Rightarrow> int \<Rightarrow> error + 's) \<Rightarrow> 's \<Rightarrow> error + 's" where
  "for_each [] body s = Inr s"
| "for_each (j # js) body s = and_then (body s j) (for_each js body)"

section \<open>The two recurrences\<close>

text \<open>
  \<^verbatim>\<open>
  def prec(n) :
      p = np.zeros(n+1)
      p[0] = 1
      p[1] = 1./3
      for j in range(2,n+1) :
          p[j] = 5./6*p[j-1] - 1./6*p[j-2]
      return p
  \<close>
  \<^verbatim>\<open>range(2, n+1)\<close> is the list \<open>[2..n]\<close>. The right-hand side of the assignment is
  evaluated from left to right, before the store.
\<close>

definition prec_body :: "'a arith \<Rightarrow> 'a list \<Rightarrow> int \<Rightarrow> error + 'a list" where
  "prec_body ar p j =
     and_then (getitem p (j - 1)) (\<lambda>x.
     and_then (getitem p (j - 2)) (\<lambda>y.
       setitem p j (a_sub ar (a_mul ar (a_div ar (a_lit ar 5) (a_lit ar 6)) x)
                             (a_mul ar (a_div ar (a_lit ar 1) (a_lit ar 6)) y))))"

definition prec :: "'a arith \<Rightarrow> int \<Rightarrow> error + 'a list" where
  "prec ar n =
     and_then (zeros ar (n + 1)) (\<lambda>p.
     and_then (setitem p 0 (a_lit ar 1)) (\<lambda>p.
     and_then (setitem p 1 (a_div ar (a_lit ar 1) (a_lit ar 3))) (\<lambda>p.
       for_each [2..n] (prec_body ar) p)))"

text \<open>
  \<^verbatim>\<open>
  def qrec(n) :
      q = np.zeros(n+1)
      q[0] = 1
      q[1] = 1./3
      for j in range(2,n+1) :
          q[j] = 5./3*q[j-1] - 4./9*q[j-2]
      return q
  \<close>
\<close>

definition qrec_body :: "'a arith \<Rightarrow> 'a list \<Rightarrow> int \<Rightarrow> error + 'a list" where
  "qrec_body ar q j =
     and_then (getitem q (j - 1)) (\<lambda>x.
     and_then (getitem q (j - 2)) (\<lambda>y.
       setitem q j (a_sub ar (a_mul ar (a_div ar (a_lit ar 5) (a_lit ar 3)) x)
                             (a_mul ar (a_div ar (a_lit ar 4) (a_lit ar 9)) y))))"

definition qrec :: "'a arith \<Rightarrow> int \<Rightarrow> error + 'a list" where
  "qrec ar n =
     and_then (zeros ar (n + 1)) (\<lambda>q.
     and_then (setitem q 0 (a_lit ar 1)) (\<lambda>q.
     and_then (setitem q 1 (a_div ar (a_lit ar 1) (a_lit ar 3))) (\<lambda>q.
       for_each [2..n] (qrec_body ar) q)))"

section \<open>The reference values and the fractional error\<close>

text \<open>
  \<^verbatim>\<open>
  n = np.arange(N+1)
  expected = 1/3.**n
  perr = np.abs(1-p/expected)
  qerr = np.abs(1-q/expected)
  \<close>
  \<^verbatim>\<open>np.arange(N+1)\<close> is \<open>[0..N]\<close>, empty when \<open>N < 0\<close>. An operation between a scalar and
  an array applies to every element. An operation between two arrays of lengths \<open>k\<close> and
  \<open>l\<close> is elementwise when \<open>k = l\<close>, stretches an array of length one to the length of the
  other, and raises otherwise. A division by zero is no exception in NumPy: the
  element is an infinity or a NaN (and a warning is printed).
\<close>

definition arange :: "int \<Rightarrow> int list" where
  "arange k = [0..k - 1]"

definition expected :: "'a arith \<Rightarrow> int \<Rightarrow> 'a list" where
  "expected ar N = map (\<lambda>k. a_div ar (a_lit ar 1) (a_pow ar (a_lit ar 3) k)) (arange (N + 1))"

definition broadcast :: "('a \<Rightarrow> 'a \<Rightarrow> 'a) \<Rightarrow> 'a list \<Rightarrow> 'a list \<Rightarrow> error + 'a list" where
  "broadcast f xs ys =
     (if length xs = length ys then Inr (map2 f xs ys)
      else if length xs = 1 then Inr (map (f (hd xs)) ys)
      else if length ys = 1 then Inr (map (\<lambda>x. f x (hd ys)) xs)
      else Inl BroadcastMismatch)"

definition fractional_error :: "'a arith \<Rightarrow> 'a list \<Rightarrow> 'a list \<Rightarrow> error + 'a list" where
  "fractional_error ar computed reference =
     and_then (broadcast (a_div ar) computed reference) (\<lambda>r.
       Inr (map (\<lambda>x. a_abs ar (a_sub ar (a_lit ar 1) x)) r))"

definition perr :: "'a arith \<Rightarrow> int \<Rightarrow> error + 'a list" where
  "perr ar N = and_then (prec ar N) (\<lambda>p. fractional_error ar p (expected ar N))"

definition qerr :: "'a arith \<Rightarrow> int \<Rightarrow> error + 'a list" where
  "qerr ar N = and_then (qrec ar N) (\<lambda>q. fractional_error ar q (expected ar N))"

section \<open>Exact arithmetic\<close>

text \<open>\<open>x powi k\<close> is \<open>x ^ k\<close> for \<open>0 \<le> k\<close> and \<open>1 / x ^ (- k)\<close> for \<open>k < 0\<close>.\<close>

definition exact :: "rat arith" where
  "exact = \<lparr>a_lit = of_int, a_mul = (*), a_sub = (-), a_div = (/), a_abs = abs,
            a_pow = (\<lambda>x k. x powi k)\<rparr>"

section \<open>IEEE 754 binary64 arithmetic\<close>

text \<open>
  A binary64 number is a sign and a magnitude, an infinity with a sign, or a NaN. The
  magnitude is a rational; zero has a sign. Every operation returns the exact result
  rounded to the nearest number with a 53-bit significand and an exponent at least
  \<open>-1022\<close>, ties to the even significand, and an infinity from \<open>2^1024\<close> on.
\<close>

datatype f64 = Finite bool rat | Infinity bool | NaN

definition pow2 :: "int \<Rightarrow> rat" where
  "pow2 e = 2 powi e"

function bit_length :: "int \<Rightarrow> int" where
  "bit_length a = (if 0 < a then bit_length (a div 2) + 1 else 0)"
  by pat_completeness auto
termination
  by (relation "measure nat") auto

declare bit_length.simps [simp del]

text \<open>The exponent of a positive rational: \<open>pow2 (ilog2 x) \<le> x < pow2 (ilog2 x + 1)\<close>.\<close>

definition ilog2 :: "rat \<Rightarrow> int" where
  "ilog2 x = (if 1 \<le> x then bit_length \<lfloor>x\<rfloor> - 1 else - bit_length (\<lceil>1 / x\<rceil> - 1))"

definition nearest_even :: "int \<Rightarrow> rat \<Rightarrow> int" where
  "nearest_even f r =
     (if r < 1 / 2 then f else if 1 / 2 < r then f + 1 else if even f then f else f + 1)"

definition round_half_even :: "rat \<Rightarrow> int" where
  "round_half_even q = nearest_even \<lfloor>q\<rfloor> (q - of_int \<lfloor>q\<rfloor>)"

definition pack :: "bool \<Rightarrow> rat \<Rightarrow> f64" where
  "pack s y = (if pow2 1024 \<le> y then Infinity s else Finite s y)"

text \<open>\<open>quantize s m u\<close>: the multiple of the unit \<open>u\<close> nearest to the magnitude \<open>m\<close>.\<close>

definition quantize :: "bool \<Rightarrow> rat \<Rightarrow> rat \<Rightarrow> f64" where
  "quantize s m u = pack s (of_int (round_half_even (m / u)) * u)"

definition round64 :: "bool \<Rightarrow> rat \<Rightarrow> f64" where
  "round64 s m =
     (if m = 0 then Finite s 0 else quantize s m (pow2 (max (ilog2 m) (- 1022) - 52)))"

definition signed :: "bool \<Rightarrow> rat \<Rightarrow> rat" where
  "signed s m = (if s then - m else m)"

text \<open>Rounding a signed exact result; \<open>z\<close> is the sign of an exact zero.\<close>

definition round_signed :: "bool \<Rightarrow> rat \<Rightarrow> f64" where
  "round_signed z v = (if v = 0 then Finite z 0 else round64 (v < 0) \<bar>v\<bar>)"

definition flit :: "int \<Rightarrow> f64" where
  "flit i = round64 (i < 0) (of_int \<bar>i\<bar>)"

fun fmul :: "f64 \<Rightarrow> f64 \<Rightarrow> f64" where
  "fmul (Finite s m) (Finite t k) = round64 (s \<noteq> t) (m * k)"
| "fmul (Finite s m) (Infinity t) = (if m = 0 then NaN else Infinity (s \<noteq> t))"
| "fmul (Infinity s) (Finite t k) = (if k = 0 then NaN else Infinity (s \<noteq> t))"
| "fmul (Infinity s) (Infinity t) = Infinity (s \<noteq> t)"
| "fmul _ _ = NaN"

fun fdiv :: "f64 \<Rightarrow> f64 \<Rightarrow> f64" where
  "fdiv (Finite s m) (Finite t k) =
     (if k = 0 then (if m = 0 then NaN else Infinity (s \<noteq> t))
      else round64 (s \<noteq> t) (m / k))"
| "fdiv (Finite s m) (Infinity t) = Finite (s \<noteq> t) 0"
| "fdiv (Infinity s) (Finite t k) = Infinity (s \<noteq> t)"
| "fdiv _ _ = NaN"

fun fadd :: "f64 \<Rightarrow> f64 \<Rightarrow> f64" where
  "fadd (Finite s m) (Finite t k) = round_signed (s \<and> t) (signed s m + signed t k)"
| "fadd (Finite s m) (Infinity t) = Infinity t"
| "fadd (Infinity s) (Finite t k) = Infinity s"
| "fadd (Infinity s) (Infinity t) = (if s = t then Infinity s else NaN)"
| "fadd _ _ = NaN"

fun fneg :: "f64 \<Rightarrow> f64" where
  "fneg (Finite s m) = Finite (\<not> s) m"
| "fneg (Infinity s) = Infinity (\<not> s)"
| "fneg NaN = NaN"

definition fsub :: "f64 \<Rightarrow> f64 \<Rightarrow> f64" where
  "fsub x y = fadd x (fneg y)"

fun fabs :: "f64 \<Rightarrow> f64" where
  "fabs (Finite s m) = Finite False m"
| "fabs (Infinity s) = Infinity False"
| "fabs NaN = NaN"

text \<open>
  \<^verbatim>\<open>x ** k\<close> for an integer \<open>k\<close>: NumPy converts \<open>k\<close> to binary64 and calls the C library's
  \<^verbatim>\<open>pow\<close>, which IEEE 754 does not require to be correctly rounded. The power is
  therefore a parameter \<open>pw\<close> of the arithmetic. \<open>fpow\<close> is the correctly rounded power,
  with \<^verbatim>\<open>pow(x, 0) = 1\<close> for every \<open>x\<close>; the outputs stored in the notebook are those of
  \<open>binary64 fpow\<close>.
\<close>

fun fpow :: "f64 \<Rightarrow> int \<Rightarrow> f64" where
  "fpow (Finite s m) k =
     (if k = 0 then Finite False 1
      else if m = 0 then (if 0 < k then Finite (s \<and> odd k) 0 else Infinity (s \<and> odd k))
      else round64 (s \<and> odd k) (m powi k))"
| "fpow (Infinity s) k =
     (if k = 0 then Finite False 1
      else if 0 < k then Infinity (s \<and> odd k) else Finite (s \<and> odd k) 0)"
| "fpow NaN k = (if k = 0 then Finite False 1 else NaN)"

definition binary64 :: "(f64 \<Rightarrow> int \<Rightarrow> f64) \<Rightarrow> f64 arith" where
  "binary64 pw = \<lparr>a_lit = flit, a_mul = fmul, a_sub = fsub, a_div = fdiv, a_abs = fabs,
               a_pow = pw\<rparr>"

text \<open>
  What the theorems on the reference values assume of \<open>pw\<close>: on the powers
  \<open>3^0 .. 3^K\<close> it is faithful, that is, it returns one of the two numbers with a
  53-bit significand that enclose the integer \<open>3^k\<close>, \<open>down53 (3^k) \<le> 3^k \<le> up53 (3^k)\<close>,
  and so \<open>3^k\<close> itself where that is a binary64 number (up to \<open>k = 33\<close>).
\<close>

definition down53 :: "int \<Rightarrow> int" where
  "down53 v = v div 2 ^ nat (bit_length v - 53) * 2 ^ nat (bit_length v - 53)"

definition up53 :: "int \<Rightarrow> int" where
  "up53 v = - (- v div 2 ^ nat (bit_length v - 53)) * 2 ^ nat (bit_length v - 53)"

definition faithful_pow :: "(f64 \<Rightarrow> int \<Rightarrow> f64) \<Rightarrow> int \<Rightarrow> bool" where
  "faithful_pow pw K =
     (\<forall>k\<in>{0..K}. pw (flit 3) k = Finite False (of_int (down53 (3 ^ nat k)))
                \<or> pw (flit 3) k = Finite False (of_int (up53 (3 ^ nat k))))"

text \<open>The comparisons \<^verbatim>\<open><\<close> and \<^verbatim>\<open><=\<close> of binary64: false when an operand is a NaN; the
  two zeros are equal.\<close>

fun is_nan :: "f64 \<Rightarrow> bool" where
  "is_nan NaN = True"
| "is_nan _ = False"

fun is_finite :: "f64 \<Rightarrow> bool" where
  "is_finite (Finite s m) = True"
| "is_finite _ = False"

fun is_zero :: "f64 \<Rightarrow> bool" where
  "is_zero (Finite s m) = (m = 0)"
| "is_zero _ = False"

fun flt :: "f64 \<Rightarrow> f64 \<Rightarrow> bool" where
  "flt (Finite s m) (Finite t k) = (signed s m < signed t k)"
| "flt (Finite s m) (Infinity t) = (\<not> t)"
| "flt (Infinity s) (Finite t k) = s"
| "flt (Infinity s) (Infinity t) = (s \<and> \<not> t)"
| "flt _ _ = False"

fun fle :: "f64 \<Rightarrow> f64 \<Rightarrow> bool" where
  "fle (Finite s m) (Finite t k) = (signed s m \<le> signed t k)"
| "fle (Finite s m) (Infinity t) = (\<not> t)"
| "fle (Infinity s) (Finite t k) = s"
| "fle (Infinity s) (Infinity t) = (s \<or> \<not> t)"
| "fle _ _ = False"

section \<open>Auxiliary definitions\<close>

text \<open>The loop body of both recurrences with the two coefficients as parameters, and
  the sequence it computes: \<open>lin_seq ar c d j\<close> is the \<open>j\<close>-th element, \<open>lin_iter\<close>
  lists the next \<open>k\<close> elements from two consecutive ones.\<close>

definition lin_body :: "'a arith \<Rightarrow> 'a \<Rightarrow> 'a \<Rightarrow> 'a list \<Rightarrow> int \<Rightarrow> error + 'a list" where
  "lin_body ar c d p j =
     and_then (getitem p (j - 1)) (\<lambda>x.
     and_then (getitem p (j - 2)) (\<lambda>y.
       setitem p j (a_sub ar (a_mul ar c x) (a_mul ar d y))))"

fun lin_seq :: "'a arith \<Rightarrow> 'a \<Rightarrow> 'a \<Rightarrow> nat \<Rightarrow> 'a" where
  "lin_seq ar c d 0 = a_lit ar 1"
| "lin_seq ar c d (Suc 0) = a_div ar (a_lit ar 1) (a_lit ar 3)"
| "lin_seq ar c d (Suc (Suc j)) =
     a_sub ar (a_mul ar c (lin_seq ar c d (Suc j))) (a_mul ar d (lin_seq ar c d j))"

fun lin_iter :: "'a arith \<Rightarrow> 'a \<Rightarrow> 'a \<Rightarrow> nat \<Rightarrow> 'a \<Rightarrow> 'a \<Rightarrow> 'a list" where
  "lin_iter ar c d 0 x y = []"
| "lin_iter ar c d (Suc k) x y =
     x # lin_iter ar c d k y (a_sub ar (a_mul ar c y) (a_mul ar d x))"

text \<open>The sequences of \<^verbatim>\<open>prec\<close> and \<^verbatim>\<open>qrec\<close>.\<close>

definition pseq :: "'a arith \<Rightarrow> nat \<Rightarrow> 'a" where
  "pseq ar = lin_seq ar (a_div ar (a_lit ar 5) (a_lit ar 6)) (a_div ar (a_lit ar 1) (a_lit ar 6))"

definition qseq :: "'a arith \<Rightarrow> nat \<Rightarrow> 'a" where
  "qseq ar = lin_seq ar (a_div ar (a_lit ar 5) (a_lit ar 3)) (a_div ar (a_lit ar 4) (a_lit ar 9))"

text \<open>Binary64 numbers written with an integer significand and an exponent,
  \<open>fm s m e\<close> for \<open>(-1)^s * m * 2^e\<close>, and the rounding of the operations computed
  on integers. The lemmas of the section on evaluation prove that these functions
  compute the operations defined above.\<close>

definition fm :: "bool \<Rightarrow> int \<Rightarrow> int \<Rightarrow> f64" where
  "fm s m e = Finite s (of_int m * pow2 e)"

definition nearest_even_at :: "int \<Rightarrow> int \<Rightarrow> int \<Rightarrow> int" where
  "nearest_even_at q N D =
     (if 2 * (N - q * D) < D then q else if D < 2 * (N - q * D) then q + 1
      else if even q then q else q + 1)"

definition round_div :: "int \<Rightarrow> int \<Rightarrow> int" where
  "round_div N D = nearest_even_at (N div D) N D"

definition pack_me :: "bool \<Rightarrow> int \<Rightarrow> int \<Rightarrow> f64" where
  "pack_me s n e = (if n = 0 \<or> bit_length n + e \<le> 1024 then fm s n e else Infinity s)"

definition round_me_at :: "bool \<Rightarrow> int \<Rightarrow> int \<Rightarrow> int \<Rightarrow> f64" where
  "round_me_at s M g E =
     (if E \<le> g then pack_me s M g else pack_me s (round_div M (2 ^ nat (E - g))) E)"

definition round_me :: "bool \<Rightarrow> int \<Rightarrow> int \<Rightarrow> f64" where
  "round_me s M g =
     (if M = 0 then fm s 0 0 else round_me_at s M g (max (bit_length M - 1 + g) (- 1022) - 52))"

definition ilog2_adjust :: "int \<Rightarrow> int \<Rightarrow> int \<Rightarrow> int" where
  "ilog2_adjust a b d =
     (if 0 \<le> d then (if b * 2 ^ nat d \<le> a then d else d - 1)
      else (if b \<le> a * 2 ^ nat (- d) then d else d - 1))"

definition round_ratio_at :: "bool \<Rightarrow> int \<Rightarrow> int \<Rightarrow> int \<Rightarrow> int \<Rightarrow> f64" where
  "round_ratio_at s a b g E =
     (if E \<le> g then pack_me s (round_div (a * 2 ^ nat (g - E)) b) E
      else pack_me s (round_div a (b * 2 ^ nat (E - g))) E)"

definition round_ratio :: "bool \<Rightarrow> int \<Rightarrow> int \<Rightarrow> int \<Rightarrow> f64" where
  "round_ratio s a b g =
     round_ratio_at s a b g
       (max (ilog2_adjust a b (bit_length a - bit_length b) + g) (- 1022) - 52)"

definition sg :: "bool \<Rightarrow> int \<Rightarrow> int" where
  "sg s a = (if s then - a else a)"

definition round_signed_me :: "bool \<Rightarrow> int \<Rightarrow> int \<Rightarrow> f64" where
  "round_signed_me z v g = (if v = 0 then fm z 0 0 else round_me (v < 0) \<bar>v\<bar> g)"

text \<open>One element of the fractional error, \<open>|1 - c / e|\<close>, and the comparison of two
  of them against the same reference \<open>e\<close>.\<close>

definition err_at :: "f64 \<Rightarrow> f64 \<Rightarrow> f64" where
  "err_at c e = fabs (fsub (flit 1) (fdiv c e))"

definition gap_at :: "f64 \<Rightarrow> f64 \<Rightarrow> f64 \<Rightarrow> bool" where
  "gap_at p q e = flt (err_at p e) (err_at q e)"

text \<open>NumPy prints an element of an array with eight digits after the point. The
  decimal \<open>d * 10^e\<close> printed for \<open>x\<close> is \<open>x\<close> rounded to that digit, so it differs from
  \<open>x\<close> by at most half a unit of its last digit.\<close>

definition shown_as :: "f64 \<Rightarrow> int \<Rightarrow> int \<Rightarrow> bool" where
  "shown_as x d e =
     (case x of Finite s m \<Rightarrow> \<bar>signed s m - of_int d * 10 powi e\<bar> \<le> 10 powi e / 2
      | _ \<Rightarrow> False)"

section \<open>Arrays and loops\<close>

lemma and_then_Inr [simp]: "and_then (Inr x) f = f x"
  by (simp add: and_then_def)

lemma and_then_Inl [simp]: "and_then (Inl e) f = Inl e"
  by (simp add: and_then_def)

lemma position_in_range: "k < length a \<Longrightarrow> position a (int k) = Inr k"
  by (simp add: position_def)

lemma getitem_in_range: "k < length a \<Longrightarrow> getitem a (int k) = Inr (a ! k)"
  by (simp add: getitem_def position_in_range)

lemma setitem_in_range: "k < length a \<Longrightarrow> setitem a (int k) v = Inr (a[k := v])"
  by (simp add: setitem_def position_in_range)

lemma for_each_append:
  "for_each (xs @ ys) body s = and_then (for_each xs body s) (for_each ys body)"
  by (induction xs arbitrary: s) (auto simp: and_then_def split: sum.splits)

lemma lin_body_step:
  assumes "1 \<le> k" "k < n"
  shows "lin_body ar c d (map (lin_seq ar c d) [0..<Suc k] @ replicate (n - k) z) (int (Suc k))
         = Inr (map (lin_seq ar c d) [0..<Suc (Suc k)] @ replicate (n - Suc k) z)"
proof -
  let ?f = "lin_seq ar c d"
  let ?s = "map ?f [0..<Suc k] @ replicate (n - k) z"
  obtain i where k: "k = Suc i" using assms(1) by (cases k) auto
  have len: "length ?s = Suc n" using assms by simp
  have i1: "int (Suc k) - 1 = int k" and i2: "int (Suc k) - 2 = int i"
    using k by simp_all
  have "k < length ?s" using len assms by linarith
  then have g1: "getitem ?s (int k) = Inr (?s ! k)"
    by (rule getitem_in_range)
  have "i < length ?s" using len assms k by linarith
  then have g2: "getitem ?s (int i) = Inr (?s ! i)"
    by (rule getitem_in_range)
  have "Suc k < length ?s" using len assms by linarith
  then have st: "setitem ?s (int (Suc k)) v = Inr (?s[Suc k := v])" for v
    by (rule setitem_in_range)
  have n1: "?s ! k = ?f k" and n2: "?s ! i = ?f i"
    using k by (simp_all add: nth_append del: upt_Suc)
  have upd: "?s[Suc k := v] = map ?f [0..<Suc k] @ v # replicate (n - Suc k) z" for v
  proof -
    obtain m where m: "n - k = Suc m" using assms(2) by (cases "n - k") auto
    then have "n - Suc k = m" by simp
    then show ?thesis using m by (simp add: list_update_append)
  qed
  have "lin_body ar c d ?s (int (Suc k))
        = Inr (map ?f [0..<Suc k] @ ?f (Suc k) # replicate (n - Suc k) z)"
    unfolding lin_body_def i1 i2 g1 g2 and_then_Inr st n1 n2 upd by (simp add: k)
  then show ?thesis by simp
qed

lemma lin_loop:
  assumes "1 \<le> k" "k \<le> n"
  shows "for_each [2..int k] (lin_body ar c d)
           (map (lin_seq ar c d) [0..<2] @ replicate (n - 1) z)
         = Inr (map (lin_seq ar c d) [0..<Suc k] @ replicate (n - k) z)"
  using assms
proof (induction k)
  case 0
  then show ?case by simp
next
  case (Suc k)
  show ?case
  proof (cases "k = 0")
    case True
    then show ?thesis by (simp add: numeral_2_eq_2)
  next
    case False
    then have k: "1 \<le> k" "k \<le> n" "k < n" using Suc.prems by auto
    have "[2..int (Suc k)] = [2..int k] @ [int (Suc k)]"
      using k upto_rec2 [of 2 "int (Suc k)"] by simp
    then show ?thesis
      using Suc.IH [OF k(1,2)] lin_body_step [OF k(1,3), of ar c d z]
      by (simp add: for_each_append del: upt_Suc of_nat_Suc)
  qed
qed

lemma lin_init:
  assumes "1 \<le> n"
  shows "and_then (zeros ar (int n + 1)) (\<lambda>p.
         and_then (setitem p 0 u) (\<lambda>p. setitem p 1 v))
         = Inr ([u, v] @ replicate (n - 1) (a_lit ar 0))"
proof -
  obtain m where m: "n = Suc m" using assms by (cases n) auto
  have z: "zeros ar (int n + 1) = Inr (a_lit ar 0 # a_lit ar 0 # replicate m (a_lit ar 0))"
    by (simp add: zeros_def m nat_add_distrib)
  show ?thesis
    unfolding z and_then_Inr
    using setitem_in_range [of 0 "a_lit ar 0 # a_lit ar 0 # replicate m (a_lit ar 0)" u]
      setitem_in_range [of 1 "u # a_lit ar 0 # replicate m (a_lit ar 0)" v]
    by (simp add: m)
qed

lemma lin_init_then:
  assumes "1 \<le> n"
  shows "and_then (zeros ar (int n + 1)) (\<lambda>p.
         and_then (setitem p 0 u) (\<lambda>p.
         and_then (setitem p 1 v) f))
         = f ([u, v] @ replicate (n - 1) (a_lit ar 0))"
proof -
  obtain m where m: "n = Suc m" using assms by (cases n) auto
  let ?z = "a_lit ar 0"
  have z: "zeros ar (int n + 1) = Inr (?z # ?z # replicate m ?z)"
    by (simp add: zeros_def m nat_add_distrib)
  have s0: "setitem (?z # ?z # replicate m ?z) 0 u = Inr (u # ?z # replicate m ?z)"
    using setitem_in_range [of 0 "?z # ?z # replicate m ?z" u] by simp
  have s1: "setitem (u # ?z # replicate m ?z) 1 v = Inr (u # v # replicate m ?z)"
    using setitem_in_range [of 1 "u # ?z # replicate m ?z" v] by simp
  show ?thesis
    unfolding z and_then_Inr s0 s1 by (simp add: m)
qed

lemma lin_closed:
  assumes "1 \<le> n"
  shows "and_then (zeros ar (int n + 1)) (\<lambda>p.
         and_then (setitem p 0 (a_lit ar 1)) (\<lambda>p.
         and_then (setitem p 1 (a_div ar (a_lit ar 1) (a_lit ar 3))) (\<lambda>p.
           for_each [2..int n] (lin_body ar c d) p)))
         = Inr (map (lin_seq ar c d) [0..<Suc n])"
proof -
  have i: "[a_lit ar 1, a_div ar (a_lit ar 1) (a_lit ar 3)] = map (lin_seq ar c d) [0..<2]"
    by (simp add: numeral_2_eq_2)
  show ?thesis
    unfolding lin_init_then [OF assms] i lin_loop [OF assms order_refl] by simp
qed

lemma prec_body_lin:
  "prec_body ar = lin_body ar (a_div ar (a_lit ar 5) (a_lit ar 6)) (a_div ar (a_lit ar 1) (a_lit ar 6))"
  by (intro ext) (simp add: prec_body_def lin_body_def)

lemma qrec_body_lin:
  "qrec_body ar = lin_body ar (a_div ar (a_lit ar 5) (a_lit ar 3)) (a_div ar (a_lit ar 4) (a_lit ar 9))"
  by (intro ext) (simp add: qrec_body_def lin_body_def)

lemma prec_closed: "1 \<le> n \<Longrightarrow> prec ar (int n) = Inr (map (pseq ar) [0..<Suc n])"
  unfolding prec_def prec_body_lin pseq_def by (rule lin_closed)

lemma qrec_closed: "1 \<le> n \<Longrightarrow> qrec ar (int n) = Inr (map (qseq ar) [0..<Suc n])"
  unfolding qrec_def qrec_body_lin qseq_def by (rule lin_closed)

lemma lin_seq_rec:
  "2 \<le> j \<Longrightarrow> lin_seq ar c d j
     = a_sub ar (a_mul ar c (lin_seq ar c d (j - 1))) (a_mul ar d (lin_seq ar c d (j - 2)))"
proof -
  assume "2 \<le> j"
  then obtain i where "j = Suc (Suc i)" by (metis add_2_eq_Suc le_Suc_ex)
  then show ?thesis by simp
qed

lemma lin_iter_map:
  "lin_iter ar c d k (lin_seq ar c d j) (lin_seq ar c d (Suc j)) = map (lin_seq ar c d) [j..<j + k]"
proof (induction k arbitrary: j)
  case 0
  then show ?case by simp
next
  case (Suc k)
  have "lin_iter ar c d (Suc k) (lin_seq ar c d j) (lin_seq ar c d (Suc j))
        = lin_seq ar c d j # lin_iter ar c d k (lin_seq ar c d (Suc j)) (lin_seq ar c d (Suc (Suc j)))"
    by simp
  also have "\<dots> = lin_seq ar c d j # map (lin_seq ar c d) [Suc j..<Suc j + k]"
    by (simp only: Suc.IH)
  also have "\<dots> = map (lin_seq ar c d) [j..<j + Suc k]"
    by (simp add: upt_rec [of j])
  finally show ?case .
qed

lemma prec_iter:
  "1 \<le> n \<Longrightarrow> prec ar (int n) =
     Inr (lin_iter ar (a_div ar (a_lit ar 5) (a_lit ar 6)) (a_div ar (a_lit ar 1) (a_lit ar 6))
            (Suc n) (a_lit ar 1) (a_div ar (a_lit ar 1) (a_lit ar 3)))"
  using lin_iter_map [of ar _ _ "Suc n" 0] by (simp add: prec_closed pseq_def del: upt_Suc)

lemma qrec_iter:
  "1 \<le> n \<Longrightarrow> qrec ar (int n) =
     Inr (lin_iter ar (a_div ar (a_lit ar 5) (a_lit ar 3)) (a_div ar (a_lit ar 4) (a_lit ar 9))
            (Suc n) (a_lit ar 1) (a_div ar (a_lit ar 1) (a_lit ar 3)))"
  using lin_iter_map [of ar _ _ "Suc n" 0] by (simp add: qrec_closed qseq_def del: upt_Suc)

section \<open>Evaluation of the binary64 operations\<close>

subsection \<open>Powers of two\<close>

lemma pow2_pos [simp]: "0 < pow2 e"
  by (simp add: pow2_def)

lemma pow2_nonzero [simp]: "pow2 e \<noteq> 0"
  using pow2_pos [of e] by linarith

lemma pow2_not_le_0 [simp]: "\<not> pow2 e \<le> 0"
  using pow2_pos [of e] by linarith

lemma pow2_nonneg [simp]: "0 \<le> pow2 e"
  using pow2_pos [of e] by linarith

lemma pow2_not_less_0 [simp]: "\<not> pow2 e < 0"
  using pow2_pos [of e] by linarith

lemma pow2_0 [simp]: "pow2 0 = 1"
  by (simp add: pow2_def)

lemma pow2_add: "pow2 (a + b) = pow2 a * pow2 b"
  by (simp add: pow2_def power_int_add)

lemma pow2_diff: "pow2 (a - b) = pow2 a / pow2 b"
  by (simp add: pow2_def power_int_diff)

lemma pow2_nat: "0 \<le> e \<Longrightarrow> pow2 e = of_int (2 ^ nat e)"
  by (simp add: pow2_def power_int_def)

lemma pow2_neg: "e \<le> 0 \<Longrightarrow> pow2 e = 1 / of_int (2 ^ nat (- e))"
  by (auto simp: pow2_def power_int_def field_simps)

lemma pow2_mono: "a \<le> b \<Longrightarrow> pow2 a \<le> pow2 b"
  by (simp add: pow2_def power_int_increasing)

lemma pow2_strict_mono: "a < b \<Longrightarrow> pow2 a < pow2 b"
  by (simp add: pow2_def power_int_strict_increasing)

subsection \<open>The bit length and the exponent\<close>

lemma bit_length_nonpos: "a \<le> 0 \<Longrightarrow> bit_length a = 0"
  by (simp add: bit_length.simps)

lemma bit_length_bounds:
  "0 < a \<Longrightarrow> 0 < bit_length a \<and> 2 ^ nat (bit_length a - 1) \<le> a \<and> a < 2 ^ nat (bit_length a)"
proof (induction a rule: bit_length.induct)
  case (1 a)
  show ?case
  proof (cases "a div 2 = 0")
    case True
    then have a: "a = 1" using "1.prems" by presburger
    have "bit_length a = bit_length (a div 2) + 1"
      using "1.prems" by (subst bit_length.simps) simp
    then have "bit_length a = 1" using True by (simp add: bit_length_nonpos)
    then show ?thesis using a by simp
  next
    case False
    then have h: "0 < a div 2" using "1.prems" by presburger
    let ?k = "bit_length (a div 2)"
    have ih: "0 < ?k" "2 ^ nat (?k - 1) \<le> a div 2" "a div 2 < 2 ^ nat ?k"
      using "1.IH" [OF "1.prems" h] by simp_all
    have b: "bit_length a = ?k + 1"
      using "1.prems" by (subst bit_length.simps) simp
    have n: "nat (?k + 1) = Suc (nat ?k)" "nat ?k = Suc (nat (?k - 1))"
      using ih(1) by arith+
    have "2 * 2 ^ nat (?k - 1) \<le> 2 * (a div 2)" using ih(2) by simp
    also have "\<dots> \<le> a" by presburger
    finally have lo: "2 ^ nat (bit_length a - 1) \<le> a" by (simp add: b n(2))
    have "a < 2 * (a div 2 + 1)" by presburger
    also have "\<dots> \<le> 2 * 2 ^ nat ?k" using ih(3) by simp
    finally have hi: "a < 2 ^ nat (bit_length a)" by (simp add: b n(1))
    show ?thesis using lo hi ih(1) b by simp
  qed
qed

lemma ilog2_bounds:
  assumes "0 < x"
  shows "pow2 (ilog2 x) \<le> x \<and> x < pow2 (ilog2 x + 1)"
proof (cases "1 \<le> x")
  case True
  let ?n = "\<lfloor>x\<rfloor>"
  have n: "0 < ?n" using True by simp
  let ?k = "bit_length ?n"
  have k: "0 < ?k" "2 ^ nat (?k - 1) \<le> ?n" "?n < 2 ^ nat ?k"
    using bit_length_bounds [OF n] by simp_all
  have e: "ilog2 x = ?k - 1" using True by (simp add: ilog2_def)
  have "pow2 (?k - 1) = of_int (2 ^ nat (?k - 1))" using k(1) by (simp add: pow2_nat)
  also have "\<dots> \<le> of_int ?n" using k(2) by (simp only: of_int_le_iff)
  also have "\<dots> \<le> x" by simp
  finally have lo: "pow2 (ilog2 x) \<le> x" by (simp add: e)
  have "?n + 1 \<le> 2 ^ nat ?k" using k(3) by simp
  then have "(of_int (?n + 1) :: rat) \<le> of_int (2 ^ nat ?k)" by (simp only: of_int_le_iff)
  moreover have "x < of_int (?n + 1)" using floor_correct [of x] by simp
  ultimately have "x < of_int (2 ^ nat ?k)" by linarith
  also have "\<dots> = pow2 ?k" using k(1) by (simp add: pow2_nat)
  finally have hi: "x < pow2 (ilog2 x + 1)" by (simp add: e)
  show ?thesis using lo hi ..
next
  case False
  then have x1: "x < 1" by simp
  let ?c = "\<lceil>1 / x\<rceil>"
  have "1 < 1 / x" using assms x1 by (simp add: field_simps)
  then have c: "1 < ?c" by (simp add: less_ceiling_iff)
  let ?m = "?c - 1"
  have m: "0 < ?m" using c by simp
  let ?k = "bit_length ?m"
  have k: "0 < ?k" "2 ^ nat (?k - 1) \<le> ?m" "?m < 2 ^ nat ?k"
    using bit_length_bounds [OF m] by simp_all
  have e: "ilog2 x = - ?k" using False by (simp add: ilog2_def)
  have up: "1 / x \<le> of_int ?c" by (rule le_of_int_ceiling)
  have "?c \<le> 2 ^ nat ?k" using k(3) by simp
  then have "(of_int ?c :: rat) \<le> of_int (2 ^ nat ?k)" by (simp only: of_int_le_iff)
  then have "1 / x \<le> of_int (2 ^ nat ?k)" using up by linarith
  then have "1 / of_int (2 ^ nat ?k) \<le> x"
    using assms by (simp add: field_simps)
  then have lo: "pow2 (ilog2 x) \<le> x" using k(1) by (simp add: e pow2_neg)
  have "of_int ?m < 1 / x" using ceiling_correct [of "1 / x"] by simp
  moreover have "(of_int (2 ^ nat (?k - 1)) :: rat) \<le> of_int ?m" using k(2) by (simp only: of_int_le_iff)
  ultimately have "of_int (2 ^ nat (?k - 1)) < 1 / x" by linarith
  then have "x < 1 / of_int (2 ^ nat (?k - 1))"
    using assms by (simp add: field_simps)
  moreover have "pow2 (- ?k + 1) = 1 / of_int (2 ^ nat (?k - 1))"
    using k(1) pow2_neg [of "- ?k + 1"] by simp
  ultimately have hi: "x < pow2 (ilog2 x + 1)" by (simp add: e)
  show ?thesis using lo hi ..
qed

lemma ilog2_unique:
  assumes "pow2 e \<le> x" "x < pow2 (e + 1)"
  shows "ilog2 x = e"
proof -
  have x: "0 < x" using assms(1) pow2_pos [of e] by linarith
  have b: "pow2 (ilog2 x) \<le> x" "x < pow2 (ilog2 x + 1)"
    using ilog2_bounds [OF x] by simp_all
  have "\<not> ilog2 x < e"
  proof
    assume "ilog2 x < e"
    then have "pow2 (ilog2 x + 1) \<le> pow2 e" by (intro pow2_mono) simp
    then show False using b(2) assms(1) by linarith
  qed
  moreover have "\<not> e < ilog2 x"
  proof
    assume "e < ilog2 x"
    then have "pow2 (e + 1) \<le> pow2 (ilog2 x)" by (intro pow2_mono) simp
    then show False using b(1) assms(2) by linarith
  qed
  ultimately show ?thesis by simp
qed

subsection \<open>Evaluation on significands and exponents\<close>

lemma round_half_even_of_int: "round_half_even (of_int k) = k"
  by (simp add: round_half_even_def nearest_even_def)

lemma round_half_even_ratio:
  assumes "0 < D"
  shows "round_half_even (of_int N / of_int D) = round_div N D"
proof -
  have fl: "\<lfloor>(of_int N :: rat) / of_int D\<rfloor> = N div D"
    by (rule floor_divide_of_int_eq)
  have m: "N - N div D * D = N mod D"
    by (simp add: minus_div_mult_eq_mod)
  have "(of_int N :: rat) = of_int (N div D) * of_int D + of_int (N mod D)"
    by (metis mult.commute of_int_add of_int_mult div_mult_mod_eq)
  then have r: "(of_int N :: rat) / of_int D - of_int (N div D) = of_int (N mod D) / of_int D"
    using assms by (simp add: field_simps)
  have lt: "(of_int (N mod D) / (of_int D :: rat) < 1 / 2) = (2 * (N mod D) < D)"
  proof -
    have "(of_int (N mod D) / (of_int D :: rat) < 1 / 2)
          = ((of_int (2 * (N mod D)) :: rat) < of_int D)"
      using assms by (simp add: field_simps)
    then show ?thesis by (simp only: of_int_less_iff)
  qed
  have gt: "(1 / 2 < of_int (N mod D) / (of_int D :: rat)) = (D < 2 * (N mod D))"
  proof -
    have "(1 / 2 < of_int (N mod D) / (of_int D :: rat))
          = ((of_int D :: rat) < of_int (2 * (N mod D)))"
      using assms by (simp add: field_simps)
    then show ?thesis by (simp only: of_int_less_iff)
  qed
  show ?thesis
    unfolding round_half_even_def fl r nearest_even_def round_div_def nearest_even_at_def m lt gt ..
qed

lemma pack_me:
  assumes "0 \<le> n"
  shows "pack s (of_int n * pow2 e) = pack_me s n e"
proof (cases "n = 0")
  case True
  then show ?thesis by (simp add: pack_def pack_me_def fm_def)
next
  case False
  then have n: "0 < n" using assms by simp
  let ?k = "bit_length n"
  have k: "0 < ?k" "2 ^ nat (?k - 1) \<le> n" "n < 2 ^ nat ?k"
    using bit_length_bounds [OF n] by simp_all
  have lo: "pow2 (?k - 1) \<le> of_int n"
  proof -
    have "(of_int (2 ^ nat (?k - 1)) :: rat) \<le> of_int n" using k(2) by (simp only: of_int_le_iff)
    then show ?thesis using k(1) by (simp add: pow2_nat)
  qed
  have hi: "of_int n < pow2 ?k"
  proof -
    have "(of_int n :: rat) < of_int (2 ^ nat ?k)" using k(3) by (simp only: of_int_less_iff)
    then show ?thesis using k(1) by (simp add: pow2_nat)
  qed
  show ?thesis
  proof (cases "?k + e \<le> 1024")
    case True
    have "of_int n * pow2 e < pow2 ?k * pow2 e" using hi by simp
    also have "\<dots> = pow2 (?k + e)" by (simp add: pow2_add)
    also have "\<dots> \<le> pow2 1024" using True by (rule pow2_mono)
    finally show ?thesis using True by (simp add: pack_def pack_me_def fm_def)
  next
    case False
    then have "pow2 1024 \<le> pow2 (?k - 1 + e)" by (intro pow2_mono) simp
    also have "\<dots> = pow2 (?k - 1) * pow2 e" by (simp add: pow2_add)
    also have "\<dots> \<le> of_int n * pow2 e" using lo by simp
    finally show ?thesis using False n by (simp add: pack_def pack_me_def)
  qed
qed

lemma ilog2_dyadic:
  assumes "0 < M"
  shows "ilog2 (of_int M * pow2 g) = bit_length M - 1 + g"
proof (rule ilog2_unique)
  let ?k = "bit_length M"
  have k: "0 < ?k" "2 ^ nat (?k - 1) \<le> M" "M < 2 ^ nat ?k"
    using bit_length_bounds [OF assms] by simp_all
  have "(of_int (2 ^ nat (?k - 1)) :: rat) \<le> of_int M" using k(2) by (simp only: of_int_le_iff)
  then have "pow2 (?k - 1) \<le> of_int M" using k(1) by (simp add: pow2_nat)
  then have "pow2 (?k - 1) * pow2 g \<le> of_int M * pow2 g" by simp
  then show "pow2 (?k - 1 + g) \<le> of_int M * pow2 g" by (simp add: pow2_add)
  have "(of_int M :: rat) < of_int (2 ^ nat ?k)" using k(3) by (simp only: of_int_less_iff)
  then have "of_int M < pow2 ?k" using k(1) by (simp add: pow2_nat)
  then have "of_int M * pow2 g < pow2 ?k * pow2 g" by simp
  then show "of_int M * pow2 g < pow2 (?k - 1 + g + 1)" by (simp add: pow2_add)
qed

lemma quantize_exact:
  assumes "E \<le> g"
  shows "quantize s (of_int M * pow2 g) (pow2 E) = pack s (of_int M * pow2 g)"
proof -
  let ?K = "2 ^ nat (g - E) :: int"
  have d: "pow2 g = of_int ?K * pow2 E"
  proof -
    have "pow2 g = pow2 (g - E + E)" by simp
    also have "\<dots> = pow2 (g - E) * pow2 E" by (rule pow2_add)
    finally show ?thesis using assms by (simp add: pow2_nat)
  qed
  have q: "of_int M * pow2 g / pow2 E = of_int (M * ?K)"
    by (simp add: d)
  have y: "of_int (M * ?K) * pow2 E = of_int M * pow2 g"
    by (simp add: d)
  show ?thesis
    unfolding quantize_def q round_half_even_of_int y ..
qed

lemma quantize_round:
  assumes "g < E"
  shows "quantize s (of_int M * pow2 g) (pow2 E)
         = pack s (of_int (round_div M (2 ^ nat (E - g))) * pow2 E)"
proof -
  let ?D = "2 ^ nat (E - g) :: int"
  have D: "0 < ?D" by simp
  have d: "pow2 E = of_int ?D * pow2 g"
  proof -
    have "pow2 E = pow2 (E - g + g)" by simp
    also have "\<dots> = pow2 (E - g) * pow2 g" by (rule pow2_add)
    finally show ?thesis using assms by (simp add: pow2_nat)
  qed
  have q: "of_int M * pow2 g / pow2 E = of_int M / of_int ?D"
    by (simp add: d)
  show ?thesis
    unfolding quantize_def q round_half_even_ratio [OF D] ..
qed

lemma round_div_nonneg:
  assumes "0 \<le> N" "0 < D"
  shows "0 \<le> round_div N D"
proof -
  have "0 \<le> N div D" using assms by (simp add: pos_imp_zdiv_nonneg_iff)
  then show ?thesis by (auto simp: round_div_def nearest_even_at_def)
qed

lemma round_me:
  assumes "0 \<le> M"
  shows "round64 s (of_int M * pow2 g) = round_me s M g"
proof (cases "M = 0")
  case True
  then show ?thesis by (simp add: round64_def round_me_def fm_def)
next
  case False
  then have M: "0 < M" using assms by simp
  define E where "E = max (bit_length M - 1 + g) (- 1022) - 52"
  have nz: "(of_int M :: rat) * pow2 g \<noteq> 0" using M by simp
  have r: "round64 s (of_int M * pow2 g) = quantize s (of_int M * pow2 g) (pow2 E)"
    using nz by (simp add: round64_def ilog2_dyadic [OF M] E_def)
  have m: "round_me s M g = round_me_at s M g E"
    using False by (simp add: round_me_def E_def)
  show ?thesis
  proof (cases "E \<le> g")
    case True
    then show ?thesis
      unfolding r m round_me_at_def quantize_exact [OF True] pack_me [OF assms] by simp
  next
    case False
    then have g: "g < E" by simp
    have n: "0 \<le> round_div M (2 ^ nat (E - g))"
      using assms by (intro round_div_nonneg) simp_all
    show ?thesis
      unfolding r m round_me_at_def quantize_round [OF g] pack_me [OF n] using False by simp
  qed
qed

lemma ilog2_ratio:
  assumes "0 < a" "0 < b"
  shows "ilog2 (of_int a / of_int b) = ilog2_adjust a b (bit_length a - bit_length b)"
proof -
  let ?k = "bit_length a" and ?l = "bit_length b"
  let ?d = "?k - ?l"
  let ?x = "(of_int a :: rat) / of_int b"
  have k: "0 < ?k" "2 ^ nat (?k - 1) \<le> a" "a < 2 ^ nat ?k"
    using bit_length_bounds [OF assms(1)] by simp_all
  have l: "0 < ?l" "2 ^ nat (?l - 1) \<le> b" "b < 2 ^ nat ?l"
    using bit_length_bounds [OF assms(2)] by simp_all
  have alo: "pow2 (?k - 1) \<le> of_int a"
  proof -
    have "(of_int (2 ^ nat (?k - 1)) :: rat) \<le> of_int a" using k(2) by (simp only: of_int_le_iff)
    then show ?thesis using k(1) by (simp add: pow2_nat)
  qed
  have ahi: "of_int a < pow2 ?k"
  proof -
    have "(of_int a :: rat) < of_int (2 ^ nat ?k)" using k(3) by (simp only: of_int_less_iff)
    then show ?thesis using k(1) by (simp add: pow2_nat)
  qed
  have blo: "pow2 (?l - 1) \<le> of_int b"
  proof -
    have "(of_int (2 ^ nat (?l - 1)) :: rat) \<le> of_int b" using l(2) by (simp only: of_int_le_iff)
    then show ?thesis using l(1) by (simp add: pow2_nat)
  qed
  have bhi: "of_int b < pow2 ?l"
  proof -
    have "(of_int b :: rat) < of_int (2 ^ nat ?l)" using l(3) by (simp only: of_int_less_iff)
    then show ?thesis using l(1) by (simp add: pow2_nat)
  qed
  have bpos: "(0::rat) < of_int b" using assms by simp
  have lower: "pow2 (?d - 1) \<le> ?x"
  proof -
    have "pow2 (?d - 1) * of_int b \<le> pow2 (?d - 1) * pow2 ?l"
      using bhi by (intro mult_left_mono) simp_all
    also have "\<dots> = pow2 (?d - 1 + ?l)" by (rule pow2_add [symmetric])
    also have "?d - 1 + ?l = ?k - 1" by simp
    also have "pow2 (?k - 1) \<le> of_int a" by (rule alo)
    finally show ?thesis using bpos by (simp add: pos_le_divide_eq)
  qed
  have upper: "?x < pow2 (?d + 1)"
  proof -
    have "of_int a < pow2 ?k" by (rule ahi)
    also have "?k = ?d + 1 + (?l - 1)" by simp
    also have "pow2 \<dots> = pow2 (?d + 1) * pow2 (?l - 1)" by (rule pow2_add)
    also have "\<dots> \<le> pow2 (?d + 1) * of_int b"
      using blo by (intro mult_left_mono) simp_all
    finally show ?thesis using bpos by (simp add: pos_divide_less_eq)
  qed
  have cmp: "(pow2 ?d \<le> ?x) =
       (if 0 \<le> ?d then b * 2 ^ nat ?d \<le> a else b \<le> a * 2 ^ nat (- ?d))"
  proof (cases "0 \<le> ?d")
    case True
    have "(pow2 ?d \<le> ?x) = (of_int (b * 2 ^ nat ?d) \<le> (of_int a :: rat))"
      using bpos True by (simp add: pos_le_divide_eq pow2_nat mult.commute)
    then show ?thesis using True by (simp only: of_int_le_iff if_True)
  next
    case False
    then have n: "?d \<le> 0" by simp
    have "(pow2 ?d \<le> ?x) = (of_int b \<le> (of_int (a * 2 ^ nat (- ?d)) :: rat))"
      using bpos by (simp add: pos_le_divide_eq pow2_neg [OF n] field_simps)
    then show ?thesis using False by (simp only: of_int_le_iff if_False)
  qed
  have adj: "ilog2_adjust a b ?d = (if pow2 ?d \<le> ?x then ?d else ?d - 1)"
    unfolding cmp by (simp add: ilog2_adjust_def)
  show ?thesis
  proof (cases "pow2 ?d \<le> ?x")
    case True
    then have "ilog2 ?x = ?d" using upper by (intro ilog2_unique) simp_all
    then show ?thesis unfolding adj using True by simp
  next
    case False
    then have "ilog2 ?x = ?d - 1" using lower by (intro ilog2_unique) simp_all
    then show ?thesis unfolding adj using False by simp
  qed
qed

lemma ilog2_scale:
  assumes "0 < x"
  shows "ilog2 (x * pow2 g) = ilog2 x + g"
proof (rule ilog2_unique)
  have b: "pow2 (ilog2 x) \<le> x" "x < pow2 (ilog2 x + 1)"
    using ilog2_bounds [OF assms] by simp_all
  have "pow2 (ilog2 x + g) = pow2 (ilog2 x) * pow2 g" by (rule pow2_add)
  also have "\<dots> \<le> x * pow2 g" using b(1) by simp
  finally show "pow2 (ilog2 x + g) \<le> x * pow2 g" .
  have "x * pow2 g < pow2 (ilog2 x + 1) * pow2 g" using b(2) by simp
  also have "\<dots> = pow2 (ilog2 x + 1 + g)" by (simp add: pow2_add)
  also have "ilog2 x + 1 + g = ilog2 x + g + 1" by simp
  finally show "x * pow2 g < pow2 (ilog2 x + g + 1)" .
qed

lemma quantize_ratio_up:
  assumes "0 < b" "E \<le> g"
  shows "quantize s (of_int a / of_int b * pow2 g) (pow2 E)
         = pack s (of_int (round_div (a * 2 ^ nat (g - E)) b) * pow2 E)"
proof -
  let ?K = "2 ^ nat (g - E) :: int"
  have d: "pow2 g = of_int ?K * pow2 E"
  proof -
    have "pow2 g = pow2 (g - E + E)" by simp
    also have "\<dots> = pow2 (g - E) * pow2 E" by (rule pow2_add)
    finally show ?thesis using assms by (simp add: pow2_nat)
  qed
  have q: "of_int a / of_int b * pow2 g / pow2 E = of_int (a * ?K) / of_int b"
    by (simp add: d)
  show ?thesis
    unfolding quantize_def q round_half_even_ratio [OF assms(1)] ..
qed

lemma quantize_ratio_down:
  assumes "0 < b" "g < E"
  shows "quantize s (of_int a / of_int b * pow2 g) (pow2 E)
         = pack s (of_int (round_div a (b * 2 ^ nat (E - g))) * pow2 E)"
proof -
  let ?D = "2 ^ nat (E - g) :: int"
  have D: "0 < b * ?D" using assms by simp
  have d: "pow2 E = of_int ?D * pow2 g"
  proof -
    have "pow2 E = pow2 (E - g + g)" by simp
    also have "\<dots> = pow2 (E - g) * pow2 g" by (rule pow2_add)
    finally show ?thesis using assms by (simp add: pow2_nat)
  qed
  have q: "of_int a / of_int b * pow2 g / pow2 E = of_int a / of_int (b * ?D)"
    by (simp add: d)
  show ?thesis
    unfolding quantize_def q round_half_even_ratio [OF D] ..
qed

lemma round_ratio:
  assumes "0 < a" "0 < b"
  shows "round64 s (of_int a / of_int b * pow2 g) = round_ratio s a b g"
proof -
  define E where "E = max (ilog2_adjust a b (bit_length a - bit_length b) + g) (- 1022) - 52"
  have x: "(0::rat) < of_int a / of_int b" using assms by simp
  have nz: "(of_int a :: rat) / of_int b * pow2 g \<noteq> 0" using assms by simp
  have il: "ilog2 (of_int a / of_int b * pow2 g)
            = ilog2_adjust a b (bit_length a - bit_length b) + g"
    unfolding ilog2_scale [OF x] ilog2_ratio [OF assms] ..
  have r: "round64 s (of_int a / of_int b * pow2 g)
           = quantize s (of_int a / of_int b * pow2 g) (pow2 E)"
    unfolding round64_def E_def by (simp only: nz if_False il)
  have m: "round_ratio s a b g = round_ratio_at s a b g E"
    by (simp add: round_ratio_def E_def)
  show ?thesis
  proof (cases "E \<le> g")
    case True
    have n: "0 \<le> round_div (a * 2 ^ nat (g - E)) b"
      using assms by (intro round_div_nonneg) simp_all
    show ?thesis
      unfolding r m round_ratio_at_def quantize_ratio_up [OF assms(2) True] pack_me [OF n]
      using True by simp
  next
    case False
    then have g: "g < E" by simp
    have n: "0 \<le> round_div a (b * 2 ^ nat (E - g))"
      using assms by (intro round_div_nonneg) simp_all
    show ?thesis
      unfolding r m round_ratio_at_def quantize_ratio_down [OF assms(2) g] pack_me [OF n]
      using False by simp
  qed
qed

subsection \<open>The operations on significands and exponents\<close>

lemma fm_zero: "Finite s 0 = fm s 0 0"
  by (simp add: fm_def)

lemma rescale:
  assumes "g \<le> e"
  shows "of_int a * pow2 e = of_int (a * 2 ^ nat (e - g)) * pow2 g"
proof -
  have "pow2 e = pow2 (e - g + g)" by simp
  also have "\<dots> = pow2 (e - g) * pow2 g" by (rule pow2_add)
  finally show ?thesis using assms by (simp add: pow2_nat)
qed

lemma flit_fm: "flit i = round_me (i < 0) \<bar>i\<bar> 0"
  using round_me [of "\<bar>i\<bar>" "i < 0" 0] by (simp add: flit_def pow2_def)

lemma fmul_fm:
  assumes "0 \<le> a" "0 \<le> b"
  shows "fmul (fm s a e) (fm t b f) = round_me (s \<noteq> t) (a * b) (e + f)"
proof -
  have eq: "of_int a * pow2 e * (of_int b * pow2 f) = of_int (a * b) * pow2 (e + f)"
    by (simp add: pow2_add)
  show ?thesis
    unfolding fm_def fmul.simps eq by (rule round_me) (use assms in simp)
qed

lemma fdiv_fm:
  assumes "0 \<le> a" "0 \<le> b"
  shows "fdiv (fm s a e) (fm t b f) =
     (if b = 0 then (if a = 0 then NaN else Infinity (s \<noteq> t))
      else if a = 0 then fm (s \<noteq> t) 0 0
      else round_ratio (s \<noteq> t) a b (e - f))"
proof (cases "a = 0 \<or> b = 0")
  case True
  then show ?thesis by (auto simp: fm_def round64_def)
next
  case False
  then have p: "0 < a" "0 < b" using assms by simp_all
  have "of_int a * pow2 e / (of_int b * pow2 f) = of_int a / of_int b * pow2 (e - f)"
    by (simp add: pow2_diff)
  then show ?thesis
    using round_ratio [OF p, of "s \<noteq> t" "e - f"] False by (simp add: fm_def)
qed

lemma signed_fm: "signed s (of_int a * pow2 e) = of_int (sg s a) * pow2 e"
  by (simp add: signed_def sg_def)

lemma round_signed_fm: "round_signed z (of_int v * pow2 g) = round_signed_me z v g"
proof (cases "v = 0")
  case True
  then show ?thesis by (simp add: round_signed_def round_signed_me_def fm_def)
next
  case False
  have a: "\<bar>of_int v * pow2 g\<bar> = of_int \<bar>v\<bar> * pow2 g"
    by (simp add: abs_mult)
  have n: "(of_int v * pow2 g < 0) = (v < 0)"
    by (simp add: mult_less_0_iff)
  show ?thesis
    unfolding round_signed_def round_signed_me_def a n
    using False round_me [of "\<bar>v\<bar>" "v < 0" g] by simp
qed

lemma fadd_fm:
  "fadd (fm s a e) (fm t b f) =
     round_signed_me (s \<and> t)
       (sg s a * 2 ^ nat (e - min e f) + sg t b * 2 ^ nat (f - min e f)) (min e f)"
proof -
  let ?g = "min e f"
  have x: "of_int (sg s a) * pow2 e = of_int (sg s a * 2 ^ nat (e - ?g)) * pow2 ?g"
    by (rule rescale) simp
  have y: "of_int (sg t b) * pow2 f = of_int (sg t b * 2 ^ nat (f - ?g)) * pow2 ?g"
    by (rule rescale) simp
  have eq: "of_int (sg s a) * pow2 e + of_int (sg t b) * pow2 f
        = of_int (sg s a * 2 ^ nat (e - ?g) + sg t b * 2 ^ nat (f - ?g)) * pow2 ?g"
    unfolding x y by (simp only: of_int_add distrib_right)
  show ?thesis
    unfolding fm_def fadd.simps signed_fm eq round_signed_fm ..
qed

lemma fneg_fm: "fneg (fm s a e) = fm (\<not> s) a e"
  by (simp add: fm_def)

lemma fabs_fm: "fabs (fm s a e) = fm False a e"
  by (simp add: fm_def)

lemma fpow_fm:
  assumes "0 \<le> a" "0 \<le> k"
  shows "fpow (fm s a e) k =
     (if k = 0 then fm False 1 0
      else if a = 0 then fm (s \<and> odd k) 0 0
      else round_me (s \<and> odd k) (a ^ nat k) (e * k))"
proof -
  have p: "pow2 e ^ nat k = pow2 (e * k)"
    unfolding pow2_def power_int_power' using assms by simp
  have "(of_int a * pow2 e) powi k = (of_int a * pow2 e) ^ nat k"
    using assms by (simp add: power_int_def)
  also have "\<dots> = of_int a ^ nat k * pow2 e ^ nat k"
    by (rule power_mult_distrib)
  finally have eq: "(of_int a * pow2 e) powi k = of_int (a ^ nat k) * pow2 (e * k)"
    by (simp add: p)
  have r: "round64 z (of_int (a ^ nat k) * pow2 (e * k)) = round_me z (a ^ nat k) (e * k)" for z
    by (rule round_me) (use assms in simp)
  show ?thesis
  proof (cases "k = 0 \<or> a = 0")
    case True
    then show ?thesis using assms by (auto simp: fm_def)
  next
    case False
    then have "fpow (fm s a e) k = round64 (s \<and> odd k) ((of_int a * pow2 e) powi k)"
      by (simp add: fm_def)
    then show ?thesis unfolding eq r using False by simp
  qed
qed

lemma compare_fm:
  "(signed s (of_int a * pow2 e) < signed t (of_int b * pow2 f))
     = (sg s a * 2 ^ nat (e - min e f) < sg t b * 2 ^ nat (f - min e f))"
  "(signed s (of_int a * pow2 e) \<le> signed t (of_int b * pow2 f))
     = (sg s a * 2 ^ nat (e - min e f) \<le> sg t b * 2 ^ nat (f - min e f))"
  "(of_int a * pow2 e = of_int b * pow2 f)
     = (a * 2 ^ nat (e - min e f) = b * 2 ^ nat (f - min e f))"
proof -
  let ?g = "min e f"
  let ?x = "sg s a * 2 ^ nat (e - ?g)" and ?y = "sg t b * 2 ^ nat (f - ?g)"
  have x: "signed s (of_int a * pow2 e) = of_int ?x * pow2 ?g"
    unfolding signed_fm using rescale [of ?g e "sg s a"] by simp
  have y: "signed t (of_int b * pow2 f) = of_int ?y * pow2 ?g"
    unfolding signed_fm using rescale [of ?g f "sg t b"] by simp
  show "(signed s (of_int a * pow2 e) < signed t (of_int b * pow2 f)) = (?x < ?y)"
    unfolding x y by (simp only: mult_less_cancel_right_pos pow2_pos of_int_less_iff)
  show "(signed s (of_int a * pow2 e) \<le> signed t (of_int b * pow2 f)) = (?x \<le> ?y)"
    unfolding x y by (simp only: mult_le_cancel_right_pos pow2_pos of_int_le_iff)
  have a: "of_int a * pow2 e = of_int (a * 2 ^ nat (e - ?g)) * pow2 ?g"
    using rescale [of ?g e a] by simp
  have b: "of_int b * pow2 f = of_int (b * 2 ^ nat (f - ?g)) * pow2 ?g"
    using rescale [of ?g f b] by simp
  show "(of_int a * pow2 e = of_int b * pow2 f)
        = (a * 2 ^ nat (e - ?g) = b * 2 ^ nat (f - ?g))"
    unfolding a b by (simp only: mult_cancel_right pow2_nonzero of_int_eq_iff simp_thms)
qed

lemma flt_fm:
  "flt (fm s a e) (fm t b f)
     = (sg s a * 2 ^ nat (e - min e f) < sg t b * 2 ^ nat (f - min e f))"
  by (simp only: fm_def flt.simps compare_fm)

lemma fle_fm:
  "fle (fm s a e) (fm t b f)
     = (sg s a * 2 ^ nat (e - min e f) \<le> sg t b * 2 ^ nat (f - min e f))"
  by (simp only: fm_def fle.simps compare_fm)

lemma fm_eq:
  "(fm s a e = fm t b f) = (s = t \<and> a * 2 ^ nat (e - min e f) = b * 2 ^ nat (f - min e f))"
  by (simp only: fm_def f64.inject compare_fm)

lemma fm_distinct [simp]:
  "fm s a e \<noteq> Infinity t" "Infinity t \<noteq> fm s a e" "fm s a e \<noteq> NaN" "NaN \<noteq> fm s a e"
  by (simp_all add: fm_def)

lemma fm_tests [simp]:
  "is_nan (fm s a e) = False" "is_finite (fm s a e) = True" "is_zero (fm s a e) = (a = 0)"
  by (simp_all add: fm_def)

lemma bit_length_numeral:
  "bit_length 0 = 0"
  "bit_length 1 = 1"
  "bit_length (numeral Num.One) = 1"
  "bit_length (numeral (Num.Bit0 n)) = bit_length (numeral n) + 1"
  "bit_length (numeral (Num.Bit1 n)) = bit_length (numeral n) + 1"
  "bit_length (- numeral n) = 0"
  by (subst bit_length.simps, simp add: bit_length_nonpos)+

lemmas f64_eval = flit_fm fmul_fm fdiv_fm fadd_fm fneg_fm fabs_fm fpow_fm flt_fm fle_fm fm_eq
  fsub_def round_signed_me_def round_me_def round_me_at_def round_ratio_def round_ratio_at_def
  ilog2_adjust_def pack_me_def round_div_def nearest_even_at_def sg_def bit_length_numeral

lemma binary64_sel:
  "a_lit (binary64 pw) = flit" "a_mul (binary64 pw) = fmul" "a_sub (binary64 pw) = fsub"
  "a_div (binary64 pw) = fdiv" "a_abs (binary64 pw) = fabs" "a_pow (binary64 pw) = pw"
  by (simp_all add: binary64_def)

lemma lin_iter_numeral:
  "lin_iter ar c d (numeral k) x y =
     x # lin_iter ar c d (pred_numeral k) y (a_sub ar (a_mul ar c y) (a_mul ar d x))"
  by (simp add: numeral_eq_Suc)

lemma upto_from_0_1:
  "[0..numeral n] = 0 # [1..numeral n]"
  "[1..numeral n] = 1 # [1 + 1..numeral n]"
  "[0..0] = [0]" "[0..1] = [0, 1]" "[1..1] = [1]"
  by (simp_all add: upto_rec1)

section \<open>Failures, signs and exact arithmetic\<close>

lemma Finite_fm:
  "Finite s 0 = fm s 0 0" "Finite s 1 = fm s 1 0" "Finite s (numeral n) = fm s (numeral n) 0"
  by (simp_all add: fm_def)


lemma flit_values: "flit 0 = Finite False 0" "flit 1 = Finite False 1"
  by (simp_all add: f64_eval) (simp_all add: fm_def)

subsection \<open>Failures\<close>

lemma position_empty: "position [] i = Inl IndexOutOfBounds"
  by (simp add: position_def Let_def)

lemma prefix_negative:
  assumes "n < 0"
  shows "and_then (zeros ar (n + 1)) (\<lambda>p. and_then (setitem p 0 u) f)
         = Inl (if n = - 1 then IndexOutOfBounds else NegativeDimensions)"
proof (cases "n = - 1")
  case True
  then show ?thesis by (simp add: zeros_def setitem_def position_empty)
next
  case False
  then have "n + 1 < 0" using assms by simp
  then show ?thesis using False by (simp add: zeros_def)
qed

lemma prefix_zero:
  "and_then (zeros ar (0 + 1)) (\<lambda>p. and_then (setitem p 0 u) (\<lambda>p. and_then (setitem p 1 v) f))
   = Inl IndexOutOfBounds"
  by (simp add: zeros_def setitem_def position_def Let_def)

lemma expected_0: "expected ar 0 = [a_div ar (a_lit ar 1) (a_pow ar (a_lit ar 3) 0)]"
  by (simp add: expected_def arange_def)

subsection \<open>The fractional error\<close>

lemma broadcast_cases:
  "broadcast f xs ys =
     (if length xs = length ys \<or> length xs = 1 \<or> length ys = 1
      then Inr (if length xs = length ys then map2 f xs ys
                else if length xs = 1 then map (f (hd xs)) ys
                else map (\<lambda>x. f x (hd ys)) xs)
      else Inl BroadcastMismatch)"
  by (simp add: broadcast_def)

lemma fractional_error_same_length:
  assumes "length c = length r"
  shows "fractional_error ar c r
         = Inr (map2 (\<lambda>x y. a_abs ar (a_sub ar (a_lit ar 1) (a_div ar x y))) c r)"
  using assms by (simp add: fractional_error_def broadcast_def map_zip_map zip_map_fst_snd split_def)

subsection \<open>Signs and NaNs\<close>

lemma round_half_even_nonneg: "0 \<le> q \<Longrightarrow> 0 \<le> round_half_even q"
  by (auto simp: round_half_even_def nearest_even_def)

lemma round64_cases:
  assumes "0 \<le> m"
  shows "round64 s m = Infinity s \<or> (\<exists>y. 0 \<le> y \<and> round64 s m = Finite s y)"
proof (cases "m = 0")
  case True
  then show ?thesis by (simp add: round64_def)
next
  case False
  define u where "u = pow2 (max (ilog2 m) (- 1022) - 52)"
  have u: "0 < u" by (simp add: u_def)
  have "0 \<le> m / u" using assms u by simp
  then have "0 \<le> round_half_even (m / u)" by (rule round_half_even_nonneg)
  then have "0 \<le> of_int (round_half_even (m / u)) * u" using u by simp
  then show ?thesis
    using False by (auto simp: round64_def quantize_def pack_def u_def)
qed

lemma round_signed_cases:
  "(\<exists>s. round_signed z v = Infinity s) \<or> (\<exists>s y. 0 \<le> y \<and> round_signed z v = Finite s y)"
proof (cases "v = 0")
  case True
  then show ?thesis by (simp add: round_signed_def)
next
  case False
  then show ?thesis
    using round64_cases [of "\<bar>v\<bar>" "v < 0"] by (auto simp: round_signed_def)
qed

lemma fsub_one_cases:
  "is_nan (fsub (flit 1) x) = is_nan x"
  "is_nan (fsub (flit 1) x) \<or> (\<exists>s. fsub (flit 1) x = Infinity s)
     \<or> (\<exists>s y. 0 \<le> y \<and> fsub (flit 1) x = Finite s y)"
proof -
  note one = flit_values(2)
  show "is_nan (fsub (flit 1) x) = is_nan x"
  proof (cases x)
    case (Finite s m)
    then show ?thesis
      using round_signed_cases [of "False \<and> \<not> s" "signed False 1 + signed (\<not> s) m"]
      by (auto simp: fsub_def one)
  qed (simp_all add: fsub_def one)
  show "is_nan (fsub (flit 1) x) \<or> (\<exists>s. fsub (flit 1) x = Infinity s)
     \<or> (\<exists>s y. 0 \<le> y \<and> fsub (flit 1) x = Finite s y)"
    using round_signed_cases by (cases x) (auto simp: fsub_def one)
qed

lemma round64_not_nan: "\<not> is_nan (round64 s m)"
  by (simp add: round64_def quantize_def pack_def)

lemma is_nan_fdiv:
  assumes "\<not> is_zero r"
  shows "is_nan (fdiv c r) = (is_nan c \<or> is_nan r \<or> (\<not> is_finite c \<and> \<not> is_finite r))"
  using assms by (cases c; cases r) (simp_all add: round64_not_nan)

lemma is_nan_fabs: "is_nan (fabs x) = is_nan x"
  by (cases x) simp_all

lemma fabs_fsub_one_nonneg:
  "is_nan (fabs (fsub (flit 1) x)) \<or> fle (flit 0) (fabs (fsub (flit 1) x))"
  using fsub_one_cases(2) [of x] by (auto simp: is_nan_fabs flit_values(1) signed_def)

subsection \<open>Exact arithmetic\<close>

lemma exact_sel:
  "a_lit exact = of_int" "a_mul exact = (*)" "a_sub exact = (-)" "a_div exact = (/)"
  "a_abs exact = abs" "a_pow exact = (\<lambda>x k. x powi k)"
  by (simp_all add: exact_def)

lemma pseq_exact: "pseq exact j = (1 / 3) ^ j"
  unfolding pseq_def
  by (induction exact "a_div exact (a_lit exact 5) (a_lit exact 6)"
        "a_div exact (a_lit exact 1) (a_lit exact 6)" j rule: lin_seq.induct)
     (simp_all add: exact_sel field_simps)

lemma qseq_exact: "qseq exact j = (1 / 3) ^ j"
  unfolding qseq_def
  by (induction exact "a_div exact (a_lit exact 5) (a_lit exact 3)"
        "a_div exact (a_lit exact 4) (a_lit exact 9)" j rule: lin_seq.induct)
     (simp_all add: exact_sel field_simps)

lemma upto_map_int: "[0..int n] = map int [0..<Suc n]"
proof (induction n)
  case 0
  then show ?case by simp
next
  case (Suc n)
  have "[0..int (Suc n)] = [0..int n] @ [int (Suc n)]"
    using upto_rec2 [of 0 "int (Suc n)"] by simp
  then show ?case using Suc by simp
qed

lemma expected_closed:
  "expected ar (int n)
   = map (\<lambda>i. a_div ar (a_lit ar 1) (a_pow ar (a_lit ar 3) (int i))) [0..<Suc n]"
  by (simp add: expected_def arange_def upto_map_int comp_def del: upt_Suc)

lemma expected_exact: "expected exact (int n) = map (\<lambda>j. (1 / 3) ^ j) [0..<Suc n]"
  unfolding expected_closed by (simp add: exact_sel power_one_over del: upt_Suc)

lemma prec_exact: "1 \<le> n \<Longrightarrow> prec exact (int n) = Inr (expected exact (int n))"
  by (simp add: prec_closed expected_exact pseq_exact del: upt_Suc)

lemma qrec_exact: "1 \<le> n \<Longrightarrow> qrec exact (int n) = Inr (expected exact (int n))"
  by (simp add: qrec_closed expected_exact qseq_exact del: upt_Suc)

subsection \<open>The first two errors\<close>

lemma map2_same:
  "map2 f (map g xs) (map h xs) = map (\<lambda>x. f (g x) (h x)) xs"
  by (induction xs) simp_all

lemma perr_closed:
  assumes "1 \<le> n"
  shows "perr ar (int n) = Inr (map (\<lambda>i. a_abs ar (a_sub ar (a_lit ar 1)
           (a_div ar (pseq ar i) (a_div ar (a_lit ar 1) (a_pow ar (a_lit ar 3) (int i))))))
           [0..<Suc n])"
  unfolding perr_def prec_closed [OF assms] and_then_Inr expected_closed
  by (subst fractional_error_same_length) (simp_all add: map2_same del: upt_Suc)

lemma qerr_closed:
  assumes "1 \<le> n"
  shows "qerr ar (int n) = Inr (map (\<lambda>i. a_abs ar (a_sub ar (a_lit ar 1)
           (a_div ar (qseq ar i) (a_div ar (a_lit ar 1) (a_pow ar (a_lit ar 3) (int i))))))
           [0..<Suc n])"
  unfolding qerr_def qrec_closed [OF assms] and_then_Inr expected_closed
  by (subst fractional_error_same_length) (simp_all add: map2_same del: upt_Suc)

lemma nth_map_upt_0: "i \<le> k \<Longrightarrow> map f [0..<Suc k] ! i = f i"
  using nth_map_upt [of i "Suc k" 0 f] by simp

lemma seq_first_two:
  "pseq ar 0 = a_lit ar 1" "pseq ar 1 = a_div ar (a_lit ar 1) (a_lit ar 3)"
  "qseq ar 0 = a_lit ar 1" "qseq ar 1 = a_div ar (a_lit ar 1) (a_lit ar 3)"
  by (simp_all add: pseq_def qseq_def)

lemma third: "fdiv (flit 1) (flit 3) = fm False 6004799503160661 (- 54)"
  by (simp add: f64_eval)

subsection \<open>A faithful power\<close>

lemma faithful_pow_fpow: "faithful_pow fpow 40"
  unfolding faithful_pow_def set_upto [symmetric]
  by (simp add: upto_from_0_1 down53_def up53_def f64_eval Finite_fm del: set_upto)

lemma faithful_pow_mono: "faithful_pow pw K \<Longrightarrow> J \<le> K \<Longrightarrow> faithful_pow pw J"
  by (auto simp: faithful_pow_def)

lemma faithful_pow_nth:
  assumes "faithful_pow pw (int n)" "i \<le> n"
  shows "pw (flit 3) (int i)
         \<in> {Finite False (of_int (down53 (3 ^ i))), Finite False (of_int (up53 (3 ^ i)))}"
proof -
  have "int i \<in> {0..int n}" using assms(2) by simp
  then show ?thesis using assms(1) unfolding faithful_pow_def by fastforce
qed

lemma faithful_pow_0_1:
  assumes "faithful_pow pw 1"
  shows "pw (flit 3) 0 = Finite False 1" "pw (flit 3) 1 = Finite False 3"
proof -
  have "faithful_pow pw (int 1)" using assms by simp
  from faithful_pow_nth [OF this, of 0] faithful_pow_nth [OF this, of 1]
  show "pw (flit 3) 0 = Finite False 1" "pw (flit 3) 1 = Finite False 3"
    by (simp_all add: down53_def up53_def bit_length_numeral)
qed

lemma first_two_any_pow:
  assumes "pw (flit 3) 0 = Finite False 1" "pw (flit 3) 1 = Finite False 3"
  shows "fdiv (flit 1) (pw (flit 3) 0) = Finite False 1"
    "fdiv (flit 1) (pw (flit 3) 1) = fdiv (flit 1) (flit 3)"
    "fabs (fsub (flit 1) (fdiv (flit 1) (fdiv (flit 1) (pw (flit 3) 0)))) = Finite False 0"
    "fabs (fsub (flit 1) (fdiv (fdiv (flit 1) (flit 3)) (fdiv (flit 1) (pw (flit 3) 1)))) = Finite False 0"
  unfolding assms by (simp_all add: f64_eval Finite_fm)

lemma err_nth:
  assumes "1 \<le> n" "i \<le> n"
  shows "projr (perr (binary64 pw) (int n)) ! i
         = err_at (projr (prec (binary64 pw) (int n)) ! i) (fdiv (flit 1) (pw (flit 3) (int i)))"
    and "projr (qerr (binary64 pw) (int n)) ! i
         = err_at (projr (qrec (binary64 pw) (int n)) ! i) (fdiv (flit 1) (pw (flit 3) (int i)))"
  unfolding perr_closed [OF assms(1)] qerr_closed [OF assms(1)] prec_closed [OF assms(1)]
    qrec_closed [OF assms(1)] sum.sel nth_map_upt_0 [OF assms(2)] binary64_sel err_at_def
  by (rule refl)+

lemma err_length:
  assumes "1 \<le> n"
  shows "perr (binary64 pw) (int n) = Inr (projr (perr (binary64 pw) (int n)))"
    "qerr (binary64 pw) (int n) = Inr (projr (qerr (binary64 pw) (int n)))"
    "length (projr (perr (binary64 pw) (int n))) = Suc n"
    "length (projr (qerr (binary64 pw) (int n))) = Suc n"
  unfolding perr_closed [OF assms(1)] qerr_closed [OF assms(1)] by simp_all

lemma ball_pair: "(\<forall>w\<in>{a, b}. G w) = (G a \<and> (if b = a then True else G b))"
  by auto

section \<open>The run of the notebook, \<open>N = 40\<close>\<close>

text \<open>The arrays \<^verbatim>\<open>p\<close>, \<^verbatim>\<open>q\<close>, \<^verbatim>\<open>expected\<close>, \<^verbatim>\<open>perr\<close> and \<^verbatim>\<open>qerr\<close> of the seventh
  cell, each element with its significand and exponent.\<close>

lemma prec_40_values: "prec (binary64 pw) 40 = Inr
    [fm False 1 (0), fm False 6004799503160661 (- 54), fm False 4003199668773775 (- 55),
     fm False 1334399889591259 (- 55), fm False 1779199852788347 (- 57),
     fm False 4744532940768933 (- 60), fm False 1581510980256315 (- 60),
     fm False 527170326752107 (- 60), fm False 1405787538005627 (- 63),
     fm False 58574480750235 (- 60), fm False 2499177845343395 (- 67),
     fm False 3332237127124597 (- 69), fm False 4442982836166271 (- 71),
     fm False 2961988557444323 (- 72), fm False 3949318076592717 (- 74),
     fm False 5265757435457529 (- 76), fm False 3510504956972259 (- 77),
     fm False 2340336637982079 (- 78), fm False 1560224425321959 (- 79),
     fm False 1040149616881879 (- 80), fm False 2773732311687303 (- 83),
     fm False 3698309748920989 (- 85), fm False 1232769916309289 (- 85),
     fm False 3287386443500609 (- 88), fm False 2140225549163 (- 79),
     fm False 5844242566284457 (- 92), fm False 3896161710892997 (- 93),
     fm False 5194882281264049 (- 95), fm False 865813713562355 (- 94),
     fm False 4617673139146003 (- 98), fm False 1539224379788723 (- 98),
     fm False 4104598346396817 (- 101), fm False 1368199448945717 (- 101),
     fm False 1824265932221179 (- 103), fm False 2432354576882019 (- 105),
     fm False 405392429627115 (- 104), fm False 540523239796377 (- 106),
     fm False 360348826824475 (- 107), fm False 960930206039495 (- 110),
     fm False 5124961108271135 (- 114), fm False 3416640748241253 (- 115)]"
  using prec_iter [of 40 "binary64 pw"] by (simp add: lin_iter_numeral binary64_sel f64_eval)

lemma qrec_40_values: "qrec (binary64 pw) 40 = Inr
    [fm False 1 (0), fm False 6004799503160661 (- 54), fm False 250199979298361 (- 51),
     fm False 667199944795631 (- 54), fm False 111199990799273 (- 53),
     fm False 148266654399037 (- 55), fm False 790755490128333 (- 59),
     fm False 65896290844073 (- 57), fm False 1405787538010753 (- 63),
     fm False 937191692017469 (- 64), fm False 1249588922744895 (- 66),
     fm False 833059281976427 (- 67), fm False 1110745710083221 (- 69),
     fm False 1480994284277993 (- 71), fm False 1974659067928161 (- 73),
     fm False 1316439437883229 (- 74), fm False 1755252899921399 (- 76),
     fm False 585084721409925 (- 76), fm False 1560230419078471 (- 79),
     fm False 2080331200470875 (- 81), fm False 1386951400401687 (- 82),
     fm False 1849609512114803 (- 84), fm False 1233982283398901 (- 85),
     fm False 825079589792243 (- 86), fm False 556519017709431 (- 87),
     fm False 1553020930936463 (- 90), fm False 1219267866076701 (- 91),
     fm False 2606600241626139 (- 93), fm False 4353492837147749 (- 94),
     fm False 4938843402689681 (- 94), fm False 3148259982875235 (- 93),
     fm False 8299158430610925 (- 94), fm False 2758369349893389 (- 92),
     fm False 1837576767654995 (- 91), fm False 2449656979448683 (- 91),
     fm False 1633030423395015 (- 90), fm False 1088674577334881 (- 89),
     fm False 362890494812033 (- 87), fm False 967707298854581 (- 88),
     fm False 2580552338738323 (- 89), fm False 6881472597830711 (- 90)]"
  using qrec_iter [of 40 "binary64 pw"] by (simp add: lin_iter_numeral binary64_sel f64_eval)

lemma expected_40_values: "expected (binary64 fpow) 40 =
    [fm False 1 (0), fm False 6004799503160661 (- 54), fm False 2001599834386887 (- 54),
     fm False 667199944795629 (- 54), fm False 222399981598543 (- 54),
     fm False 2372266470384459 (- 59), fm False 6326043921025223 (- 62),
     fm False 8434725228033631 (- 64), fm False 5623150152022421 (- 65),
     fm False 3748766768014947 (- 66), fm False 1249588922671649 (- 66),
     fm False 6664474254248795 (- 70), fm False 8885965672331727 (- 72),
     fm False 2961988557443909 (- 72), fm False 7898636153183757 (- 75),
     fm False 2632878717727919 (- 75), fm False 7021009913941117 (- 78),
     fm False 4680673275960745 (- 79), fm False 6240897701280993 (- 81),
     fm False 2080299233760331 (- 81), fm False 5547464623360883 (- 84),
     fm False 7396619497814511 (- 86), fm False 2465539832604837 (- 86),
     fm False 821846610868279 (- 86), fm False 4383181924630821 (- 90),
     fm False 1461060641543607 (- 90), fm False 487020213847869 (- 90),
     fm False 162340071282623 (- 90), fm False 6926509708058581 (- 97),
     fm False 4617673138705721 (- 98), fm False 6156897518274295 (- 100),
     fm False 8209196691032393 (- 102), fm False 5472797794021595 (- 103),
     fm False 7297063725362127 (- 105), fm False 2432354575120709 (- 105),
     fm False 3243139433494279 (- 107), fm False 8648371822651409 (- 110),
     fm False 1441395303775235 (- 109), fm False 7687441620134587 (- 113),
     fm False 1281240270022431 (- 112), fm False 427080090007477 (- 112)]"
  by (simp add: expected_def arange_def binary64_sel upto_from_0_1 f64_eval)

lemma perr_40_values: "perr (binary64 fpow) 40 = Inr
    [fm False 0 0, fm False 0 0, fm False 1 (- 52), fm False 3 (- 52), fm False 1 (- 49),
     fm False 7 (- 51), fm False 13 (- 51), fm False 43 (- 52), fm False 35 (- 51),
     fm False 7 (- 48), fm False 175 (- 52), fm False 135 (- 51), fm False 413 (- 52),
     fm False 629 (- 52), fm False 239 (- 50), fm False 723 (- 51), fm False 1091 (- 51),
     fm False 821 (- 50), fm False 2469 (- 51), fm False 7419 (- 52), fm False 11141 (- 52),
     fm False 4181 (- 50), fm False 6275 (- 50), fm False 1177 (- 47),
     fm False 28257 (- 51), fm False 84789 (- 52), fm False 63601 (- 51),
     fm False 190823 (- 52), fm False 286255 (- 52), fm False 429405 (- 52),
     fm False 161033 (- 50), fm False 60389 (- 48), fm False 1449363 (- 52),
     fm False 1087035 (- 51), fm False 1630567 (- 51), fm False 4891731 (- 52),
     fm False 7337627 (- 52), fm False 11006469 (- 52), fm False 16509735 (- 52),
     fm False 24764635 (- 52), fm False 37146987 (- 52)]"
  unfolding perr_def prec_40_values expected_40_values and_then_Inr
  by (simp add: fractional_error_def broadcast_def binary64_sel f64_eval)

lemma qerr_40_values: "qerr (binary64 fpow) 40 = Inr
    [fm False 0 0, fm False 0 0, fm False 1 (- 51), fm False 7 (- 51), fm False 61 (- 52),
     fm False 63 (- 50), fm False 513 (- 51), fm False 2059 (- 51), fm False 16491 (- 52),
     fm False 65989 (- 52), fm False 263983 (- 52), fm False 131995 (- 49),
     fm False 32999 (- 45), fm False 16895523 (- 52), fm False 67582129 (- 52),
     fm False 270328557 (- 52), fm False 540657135 (- 51), fm False 4325257121 (- 52),
     fm False 4325257133 (- 50), fm False 270328571 (- 44), fm False 69204114189 (- 50),
     fm False 553632913539 (- 51), fm False 276816456773 (- 48),
     fm False 8858126616765 (- 51), fm False 8858126616773 (- 49),
     fm False 283460051736797 (- 52), fm False 1133840206947253 (- 52),
     fm False 2267680413894539 (- 51), fm False 2267680413894547 (- 49),
     fm False 4535360827789099 (- 48), fm False 4535360827789101 (- 46),
     fm False 4535360827789101 (- 44), fm False 2267680413894551 (- 41),
     fm False 2267680413894551 (- 39), fm False 2267680413894551 (- 37),
     fm False 2267680413894551 (- 35), fm False 4535360827789103 (- 34),
     fm False 283460051736819 (- 28), fm False 283460051736819 (- 26),
     fm False 2267680413894553 (- 27), fm False 4535360827789107 (- 26)]"
  unfolding qerr_def qrec_40_values expected_40_values and_then_Inr
  by (simp add: fractional_error_def broadcast_def binary64_sel f64_eval)

lemma shown_as_fm:
  assumes "g \<le> 0" "e \<le> 0"
  shows "shown_as (fm s a g) d e
         = (\<bar>sg s a * 10 ^ nat (- e) - d * 2 ^ nat (- g)\<bar> * 2 \<le> 2 ^ nat (- g))"
proof -
  define K :: rat where "K = of_int (2 ^ nat (- g))"
  define J :: rat where "J = of_int (10 ^ nat (- e))"
  define X :: rat where "X = of_int (sg s a)"
  define D :: rat where "D = of_int d"
  have K: "0 < K" and J: "0 < J" by (simp_all add: K_def J_def)
  have v: "signed s (of_int a * pow2 g) = X / K"
    unfolding signed_fm X_def K_def using pow2_neg [OF assms(1)] by simp
  have t: "(10::rat) powi e = 1 / J"
    unfolding J_def using assms(2) by (simp add: power_int_def field_simps)
  have "X / K - D * (1 / J) = (X * J - D * K) / (K * J)"
    using K J by (simp add: field_simps)
  then have "\<bar>X / K - D * (1 / J)\<bar> = \<bar>X * J - D * K\<bar> / (K * J)"
    using K J by (simp add: abs_mult)
  also have "(\<dots> \<le> 1 / J / 2) = (\<bar>X * J - D * K\<bar> * 2 \<le> K)"
    using K J by (simp add: field_simps)
  finally have "shown_as (fm s a g) d e = (\<bar>X * J - D * K\<bar> * 2 \<le> K)"
    unfolding shown_as_def fm_def f64.case v t D_def by simp
  also have "\<bar>X * J - D * K\<bar> * 2 = of_int (\<bar>sg s a * 10 ^ nat (- e) - d * 2 ^ nat (- g)\<bar> * 2)"
    unfolding X_def J_def D_def K_def by simp
  also have "(\<dots> \<le> K) = (\<bar>sg s a * 10 ^ nat (- e) - d * 2 ^ nat (- g)\<bar> * 2 \<le> 2 ^ nat (- g))"
    unfolding K_def by (simp only: of_int_le_iff)
  finally show ?thesis .
qed

lemma prec_qrec_4_values:
  "prec (binary64 pw) 4 = Inr [fm False 1 (0),
      fm False 6004799503160661 (- 54),
      fm False 4003199668773775 (- 55),
      fm False 1334399889591259 (- 55),
      fm False 1779199852788347 (- 57)]"
  "qrec (binary64 pw) 4 = Inr [fm False 1 (0),
      fm False 6004799503160661 (- 54),
      fm False 250199979298361 (- 51),
      fm False 667199944795631 (- 54),
      fm False 111199990799273 (- 53)]"
  using prec_iter [of 4 "binary64 pw"] qrec_iter [of 4 "binary64 pw"]
  by (simp_all add: lin_iter_numeral binary64_sel f64_eval)

text \<open>The outputs stored in the notebook: \<^verbatim>\<open>prec(4)\<close> and \<^verbatim>\<open>qrec(4)\<close> (cells 5 and 6),
  \<^verbatim>\<open>expected\<close> (cell 9), \<^verbatim>\<open>perr\<close> (cell 13) and \<^verbatim>\<open>qerr\<close> (cell 14), each printed number as
  its digits and its power of ten. Every element computed above is shown as the number
  stored for it.\<close>

lemma stored_outputs_small:
  "list_all2 (\<lambda>x (d, e). shown_as x d e) (projr (prec (binary64 fpow) 4))
     [(1, 0), (33333333, - 8), (11111111, - 8), (3703704, - 8), (1234568, - 8)]"
  "list_all2 (\<lambda>x (d, e). shown_as x d e) (projr (qrec (binary64 fpow) 4))
     [(1, 0), (33333333, - 8), (11111111, - 8), (3703704, - 8), (1234568, - 8)]"
  by (simp_all add: prec_qrec_4_values shown_as_fm sg_def)

lemma stored_output_expected:
  "list_all2 (\<lambda>x (d, e). shown_as x d e) (expected (binary64 fpow) 40)
     [(100000000, - 8), (333333333, - 9), (111111111, - 9), (370370370, - 10),
      (123456790, - 10), (411522634, - 11), (137174211, - 11), (457247371, - 12),
      (152415790, - 12), (508052634, - 13), (169350878, - 13), (564502927, - 14),
      (188167642, - 14), (627225474, - 15), (209075158, - 15), (696917194, - 16),
      (232305731, - 16), (774352438, - 17), (258117479, - 17), (860391597, - 18),
      (286797199, - 18), (955990664, - 19), (318663555, - 19), (106221185, - 19),
      (354070616, - 20), (118023539, - 20), (393411796, - 21), (131137265, - 21),
      (437124217, - 22), (145708072, - 22), (485693575, - 23), (161897858, - 23),
      (539659528, - 24), (179886509, - 24), (599621697, - 25), (199873899, - 25),
      (666246331, - 26), (222082110, - 26), (740273701, - 27), (246757900, - 27),
      (822526334, - 28)]"
  by (simp add: expected_40_values shown_as_fm sg_def)

lemma stored_output_perr:
  "list_all2 (\<lambda>x (d, e). shown_as x d e) (projr (perr (binary64 fpow) 40))
     [(0, 0), (0, 0), (222044605, - 24), (666133815, - 24), (177635684, - 23),
      (310862447, - 23), (577315973, - 23), (954791801, - 23), (155431223, - 22),
      (248689958, - 22), (388578059, - 22), (599520433, - 22), (917044218, - 22),
      (139666056, - 21), (212274642, - 21), (321076499, - 21), (484501328, - 21),
      (729194483, - 21), (109645626, - 20), (164734892, - 20), (247379894, - 20),
      (371347397, - 20), (557331958, - 20), (836308800, - 20), (125486288, - 19),
      (188269400, - 19), (282445178, - 19), (423712176, - 19), (635613784, - 19),
      (953470636, - 19), (143026035, - 18), (214544826, - 18), (321823235, - 18),
      (482740514, - 18), (724117211, - 18), (108618248, - 17), (162928049, - 17),
      (244392706, - 17), (366589759, - 17), (549885359, - 17), (824828805, - 17)]"
  by (simp add: perr_40_values shown_as_fm sg_def)

lemma stored_output_qerr:
  "list_all2 (\<lambda>x (d, e). shown_as x d e) (projr (qerr (binary64 fpow) 40))
     [(0, 0), (0, 0), (444089210, - 24), (310862447, - 23), (135447209, - 22),
      (559552404, - 22), (227817765, - 21), (914379683, - 21), (366173758, - 20),
      (146525014, - 19), (586160009, - 19), (234470221, - 18), (937887989, - 18),
      (375155973, - 17), (150062471, - 16), (600249976, - 16), (240100000, - 15),
      (960400009, - 15), (384160005, - 14), (153664002, - 13), (614656008, - 13),
      (245862403, - 12), (983449612, - 12), (393379845, - 11), (157351938, - 10),
      (629407752, - 10), (251763101, - 9), (100705240, - 8), (402820961, - 8),
      (161128385, - 7), (644513538, - 7), (257805415, - 6), (103122166, - 5),
      (412488664, - 5), (164995466, - 4), (659981863, - 4), (263992745, - 3),
      (105597098, - 2), (422388392, - 2), (168955357, - 1), (675821428, - 1)]"
  by (simp add: qerr_40_values shown_as_fm sg_def)

lemma all_in_range: "(\<forall>i. a \<le> i \<and> i \<le> b \<longrightarrow> P i) = list_all P [a..<Suc b]"
  by (auto simp: list_all_iff)

text \<open>The comparison of the two errors for every faithful power: at each index both
  candidates for \<^verbatim>\<open>3.**i\<close> are tried.\<close>

lemma gap_2_11:
  "list_all (\<lambda>i. \<forall>w \<in> {Finite False (of_int (down53 (3 ^ i))), Finite False (of_int (up53 (3 ^ i)))}.
       gap_at (projr (prec (binary64 pw) 40) ! i) (projr (qrec (binary64 pw) 40) ! i)
         (fdiv (flit 1) w)) [2..<12]"
  unfolding ball_pair
  by (simp add: prec_40_values qrec_40_values down53_def up53_def gap_at_def err_at_def
        f64_eval Finite_fm)

lemma gap_12_21:
  "list_all (\<lambda>i. \<forall>w \<in> {Finite False (of_int (down53 (3 ^ i))), Finite False (of_int (up53 (3 ^ i)))}.
       gap_at (projr (prec (binary64 pw) 40) ! i) (projr (qrec (binary64 pw) 40) ! i)
         (fdiv (flit 1) w)) [12..<22]"
  unfolding ball_pair
  by (simp add: prec_40_values qrec_40_values down53_def up53_def gap_at_def err_at_def
        f64_eval Finite_fm)

lemma gap_22_31:
  "list_all (\<lambda>i. \<forall>w \<in> {Finite False (of_int (down53 (3 ^ i))), Finite False (of_int (up53 (3 ^ i)))}.
       gap_at (projr (prec (binary64 pw) 40) ! i) (projr (qrec (binary64 pw) 40) ! i)
         (fdiv (flit 1) w)) [22..<32]"
  unfolding ball_pair
  by (simp add: prec_40_values qrec_40_values down53_def up53_def gap_at_def err_at_def
        f64_eval Finite_fm)

lemma gap_32_40:
  "list_all (\<lambda>i. \<forall>w \<in> {Finite False (of_int (down53 (3 ^ i))), Finite False (of_int (up53 (3 ^ i)))}.
       gap_at (projr (prec (binary64 pw) 40) ! i) (projr (qrec (binary64 pw) 40) ! i)
         (fdiv (flit 1) w)) [32..<41]"
  unfolding ball_pair
  by (simp add: prec_40_values qrec_40_values down53_def up53_def gap_at_def err_at_def
        f64_eval Finite_fm)

lemma ends_40:
  "\<forall>w \<in> {Finite False (of_int (down53 (3 ^ 40))), Finite False (of_int (up53 (3 ^ 40)))}.
     flt (flit 1) (err_at (projr (qrec (binary64 pw) 40) ! 40) (fdiv (flit 1) w))
   \<and> flt (err_at (projr (prec (binary64 pw) 40) ! 40) (fdiv (flit 1) w))
         (fdiv (flit 1) (flit 1000000))"
  unfolding ball_pair
  by (simp add: prec_40_values qrec_40_values down53_def up53_def err_at_def
        f64_eval Finite_fm)

lemma candidates_40:
  "down53 (3 ^ 40) = 12157665459056928768" "up53 (3 ^ 40) = 12157665459056930816"
  by (simp_all add: down53_def up53_def bit_length_numeral)

lemma reference_40:
  "fdiv (flit 1) (Finite False 12157665459056928768) = Finite False (427080090007477 / 2 ^ 112)"
  "fdiv (flit 1) (Finite False 12157665459056930816) = Finite False (6833281440119631 / 2 ^ 116)"
  by (simp_all add: f64_eval Finite_fm) (simp_all add: fm_def pow2_def)

lemma gap_all:
  "\<forall>i. 2 \<le> i \<and> i \<le> 40 \<longrightarrow>
     (\<forall>w \<in> {Finite False (of_int (down53 (3 ^ i))), Finite False (of_int (up53 (3 ^ i)))}.
       gap_at (projr (prec (binary64 pw) 40) ! i) (projr (qrec (binary64 pw) 40) ! i)
         (fdiv (flit 1) w))"
proof -
  have split: "[2..<Suc 40] = [2..<12] @ [12..<22] @ [22..<32] @ [32..<41]"
    by (simp add: upt_rec_numeral)
  show ?thesis
    unfolding all_in_range split list_all_append
    using gap_2_11 gap_12_21 gap_22_31 gap_32_40 by blast
qed

section \<open>The claims\<close>

text \<open>
  C1. For every integer \<open>n \<ge> 1\<close>, \<^verbatim>\<open>prec(n)\<close> (StableRecurrence) returns an array \<open>p\<close> of
  length \<open>n + 1\<close> with \<open>p[0] = 1\<close>, \<open>p[1] = 1/3\<close> and
  \<open>p[j] = 5/6 * p[j-1] - 1/6 * p[j-2]\<close> for every \<open>j\<close> from \<open>2\<close> to \<open>n\<close>, and \<^verbatim>\<open>qrec(n)\<close>
  (UnstableRecurrence) returns an array \<open>q\<close> of the same length with the same first two
  elements and \<open>q[j] = 5/3 * q[j-1] - 4/9 * q[j-2]\<close>. The constants, the products and the
  difference are those of the arithmetic \<open>ar\<close> the code runs on, whichever it is: with
  \<open>binary64\<close> each of them is rounded, with \<open>exact\<close> none is.
\<close>

theorem recurrences_follow_their_relations:
  assumes "1 \<le> n"
  shows "\<exists>p q. prec ar n = Inr p \<and> qrec ar n = Inr q
           \<and> length p = nat (n + 1) \<and> length q = nat (n + 1)
           \<and> p ! 0 = a_lit ar 1 \<and> p ! 1 = a_div ar (a_lit ar 1) (a_lit ar 3)
           \<and> q ! 0 = a_lit ar 1 \<and> q ! 1 = a_div ar (a_lit ar 1) (a_lit ar 3)
           \<and> (\<forall>j. 2 \<le> j \<and> j \<le> nat n \<longrightarrow>
                 p ! j = a_sub ar (a_mul ar (a_div ar (a_lit ar 5) (a_lit ar 6)) (p ! (j - 1)))
                                  (a_mul ar (a_div ar (a_lit ar 1) (a_lit ar 6)) (p ! (j - 2))))
           \<and> (\<forall>j. 2 \<le> j \<and> j \<le> nat n \<longrightarrow>
                 q ! j = a_sub ar (a_mul ar (a_div ar (a_lit ar 5) (a_lit ar 3)) (q ! (j - 1)))
                                  (a_mul ar (a_div ar (a_lit ar 4) (a_lit ar 9)) (q ! (j - 2))))"
proof -
  define k where "k = nat n"
  have k: "1 \<le> k" "n = int k" using assms by (simp_all add: k_def)
  let ?p = "map (pseq ar) [0..<Suc k]" and ?q = "map (qseq ar) [0..<Suc k]"
  have nth: "i \<le> k \<Longrightarrow> map f [0..<Suc k] ! i = f i" for i and f :: "nat \<Rightarrow> 'a"
    using nth_map_upt [of i "Suc k" 0 f] by simp
  have P: "prec ar n = Inr ?p" and Q: "qrec ar n = Inr ?q"
    using k prec_closed [of k ar] qrec_closed [of k ar] by simp_all
  have len: "length ?p = nat (n + 1)" "length ?q = nat (n + 1)"
    using k by simp_all
  have p01: "?p ! 0 = a_lit ar 1" "?p ! 1 = a_div ar (a_lit ar 1) (a_lit ar 3)"
    using k nth [of 0 "pseq ar"] nth [of 1 "pseq ar"] by (simp_all add: pseq_def)
  have q01: "?q ! 0 = a_lit ar 1" "?q ! 1 = a_div ar (a_lit ar 1) (a_lit ar 3)"
    using k nth [of 0 "qseq ar"] nth [of 1 "qseq ar"] by (simp_all add: qseq_def)
  have prec_rel: "?p ! j = a_sub ar (a_mul ar (a_div ar (a_lit ar 5) (a_lit ar 6)) (?p ! (j - 1)))
                                  (a_mul ar (a_div ar (a_lit ar 1) (a_lit ar 6)) (?p ! (j - 2)))"
    if "2 \<le> j" "j \<le> nat n" for j
  proof -
    have j: "j \<le> k" "j - 1 \<le> k" "j - 2 \<le> k" using that by (simp_all add: k_def)
    show ?thesis
      unfolding nth [OF j(1)] nth [OF j(2)] nth [OF j(3)] pseq_def
      by (rule lin_seq_rec [OF that(1)])
  qed
  have qrec_rel: "?q ! j = a_sub ar (a_mul ar (a_div ar (a_lit ar 5) (a_lit ar 3)) (?q ! (j - 1)))
                                  (a_mul ar (a_div ar (a_lit ar 4) (a_lit ar 9)) (?q ! (j - 2)))"
    if "2 \<le> j" "j \<le> nat n" for j
  proof -
    have j: "j \<le> k" "j - 1 \<le> k" "j - 2 \<le> k" using that by (simp_all add: k_def)
    show ?thesis
      unfolding nth [OF j(1)] nth [OF j(2)] nth [OF j(3)] qseq_def
      by (rule lin_seq_rec [OF that(1)])
  qed
  show ?thesis
    using P Q len p01 q01 prec_rel qrec_rel by blast
qed

theorem recurrences_follow_their_relations_witness:
  "(1::int) \<le> 2 \<and>
   (\<exists>p q. prec (binary64 fpow) 2 = Inr p \<and> qrec (binary64 fpow) 2 = Inr q \<and> length p = 3 \<and> length q = 3
      \<and> p ! 0 = flit 1 \<and> p ! 1 = fdiv (flit 1) (flit 3)
      \<and> q ! 0 = flit 1 \<and> q ! 1 = fdiv (flit 1) (flit 3)
      \<and> p ! 2 = fsub (fmul (fdiv (flit 5) (flit 6)) (p ! 1)) (fmul (fdiv (flit 1) (flit 6)) (p ! 0))
      \<and> q ! 2 = fsub (fmul (fdiv (flit 5) (flit 3)) (q ! 1)) (fmul (fdiv (flit 4) (flit 9)) (q ! 0)))"
proof -
  have h: "(1::int) \<le> 2" by simp
  obtain p q where r: "prec (binary64 fpow) 2 = Inr p" "qrec (binary64 fpow) 2 = Inr q"
      "length p = nat (2 + 1)" "length q = nat (2 + 1)"
      "p ! 0 = a_lit (binary64 fpow) 1" "p ! 1 = a_div (binary64 fpow) (a_lit (binary64 fpow) 1) (a_lit (binary64 fpow) 3)"
      "q ! 0 = a_lit (binary64 fpow) 1" "q ! 1 = a_div (binary64 fpow) (a_lit (binary64 fpow) 1) (a_lit (binary64 fpow) 3)"
      and P: "\<forall>j. 2 \<le> j \<and> j \<le> nat 2 \<longrightarrow>
        p ! j = a_sub (binary64 fpow) (a_mul (binary64 fpow) (a_div (binary64 fpow) (a_lit (binary64 fpow) 5) (a_lit (binary64 fpow) 6)) (p ! (j - 1)))
                  (a_mul (binary64 fpow) (a_div (binary64 fpow) (a_lit (binary64 fpow) 1) (a_lit (binary64 fpow) 6)) (p ! (j - 2)))"
      and Q: "\<forall>j. 2 \<le> j \<and> j \<le> nat 2 \<longrightarrow>
        q ! j = a_sub (binary64 fpow) (a_mul (binary64 fpow) (a_div (binary64 fpow) (a_lit (binary64 fpow) 5) (a_lit (binary64 fpow) 3)) (q ! (j - 1)))
                  (a_mul (binary64 fpow) (a_div (binary64 fpow) (a_lit (binary64 fpow) 4) (a_lit (binary64 fpow) 9)) (q ! (j - 2)))"
    using recurrences_follow_their_relations [OF h, of "binary64 fpow"] by blast
  have "p ! 2 = fsub (fmul (fdiv (flit 5) (flit 6)) (p ! 1)) (fmul (fdiv (flit 1) (flit 6)) (p ! 0))"
    using P [rule_format, of 2] by (simp add: binary64_sel)
  moreover have "q ! 2 = fsub (fmul (fdiv (flit 5) (flit 3)) (q ! 1)) (fmul (fdiv (flit 4) (flit 9)) (q ! 0))"
    using Q [rule_format, of 2] by (simp add: binary64_sel)
  ultimately show ?thesis
    using h r by (simp add: binary64_sel)
qed

text \<open>
  C2 (amended). For arrays \<open>computed\<close> and \<open>reference\<close> of equal length, \<open>reference\<close> without
  a zero, the fractional error is an array of the same length whose element \<open>i\<close> is
  \<open>|1 - computed[i] / reference[i]|\<close>, each operation rounded. Every element is a NaN or is
  at least zero (an infinity included); it is a NaN exactly when \<open>computed[i]\<close> or
  \<open>reference[i]\<close> is a NaN or neither of them is finite, so the error of finite values is
  never negative.
\<close>

theorem fractional_error_elementwise:
  assumes "length computed = length reference" and "\<forall>r \<in> set reference. \<not> is_zero r"
  shows "\<exists>e. fractional_error (binary64 pw) computed reference = Inr e
           \<and> length e = length computed
           \<and> (\<forall>i < length computed.
                 e ! i = fabs (fsub (flit 1) (fdiv (computed ! i) (reference ! i)))
               \<and> (is_nan (e ! i) \<or> fle (flit 0) (e ! i))
               \<and> (is_nan (e ! i) = (is_nan (computed ! i) \<or> is_nan (reference ! i)
                      \<or> (\<not> is_finite (computed ! i) \<and> \<not> is_finite (reference ! i)))))"
proof -
  let ?f = "\<lambda>x y. fabs (fsub (flit 1) (fdiv x y))"
  let ?e = "map2 ?f computed reference"
  have e: "fractional_error (binary64 pw) computed reference = Inr ?e"
    using fractional_error_same_length [OF assms(1), of "binary64 pw"] by (simp add: binary64_sel)
  have len: "length ?e = length computed" using assms(1) by simp
  have el: "?e ! i = ?f (computed ! i) (reference ! i)" if "i < length computed" for i
    using that assms(1) by simp
  have nn: "is_nan (?e ! i) \<or> fle (flit 0) (?e ! i)" if "i < length computed" for i
    unfolding el [OF that] by (rule fabs_fsub_one_nonneg)
  have nan: "is_nan (?e ! i) = (is_nan (computed ! i) \<or> is_nan (reference ! i)
                \<or> (\<not> is_finite (computed ! i) \<and> \<not> is_finite (reference ! i)))"
    if "i < length computed" for i
  proof -
    have "reference ! i \<in> set reference" using that assms(1) by simp
    then have "\<not> is_zero (reference ! i)" using assms(2) by blast
    then show ?thesis
      unfolding el [OF that] is_nan_fabs fsub_one_cases(1) by (rule is_nan_fdiv)
  qed
  show ?thesis using e len el nn nan by blast
qed

theorem fractional_error_elementwise_witness:
  "length [flit 1, flit 3] = length [flit 2, flit 4] \<and> \<not> is_zero (flit 2) \<and> \<not> is_zero (flit 4)
   \<and> (\<exists>e. fractional_error (binary64 fpow) [flit 1, flit 3] [flit 2, flit 4] = Inr e \<and> length e = 2
        \<and> e ! 0 = fabs (fsub (flit 1) (fdiv (flit 1) (flit 2))) \<and> fle (flit 0) (e ! 0)
        \<and> e ! 1 = fabs (fsub (flit 1) (fdiv (flit 3) (flit 4))) \<and> fle (flit 0) (e ! 1))"
proof -
  have z: "\<not> is_zero (flit 2)" "\<not> is_zero (flit 4)" "is_finite (flit 1)" "is_finite (flit 2)"
    "is_finite (flit 3)" "is_finite (flit 4)"
    by (simp_all add: f64_eval)
  have h: "length [flit 1, flit 3] = length [flit 2, flit 4]"
    "\<forall>r \<in> set [flit 2, flit 4]. \<not> is_zero r"
    using z by simp_all
  obtain e where e: "fractional_error (binary64 fpow) [flit 1, flit 3] [flit 2, flit 4] = Inr e"
      "length e = length [flit 1, flit 3]"
      and a: "\<forall>i < length [flit 1, flit 3].
           e ! i = fabs (fsub (flit 1) (fdiv ([flit 1, flit 3] ! i) ([flit 2, flit 4] ! i)))
         \<and> (is_nan (e ! i) \<or> fle (flit 0) (e ! i))
         \<and> (is_nan (e ! i) = (is_nan ([flit 1, flit 3] ! i) \<or> is_nan ([flit 2, flit 4] ! i)
                \<or> (\<not> is_finite ([flit 1, flit 3] ! i) \<and> \<not> is_finite ([flit 2, flit 4] ! i))))"
    using fractional_error_elementwise [OF h, where pw = fpow] by blast
  have n: "\<not> is_nan (flit 1)" "\<not> is_nan (flit 2)" "\<not> is_nan (flit 3)" "\<not> is_nan (flit 4)"
    by (simp_all add: f64_eval)
  have "e ! 0 = fabs (fsub (flit 1) (fdiv (flit 1) (flit 2))) \<and> fle (flit 0) (e ! 0)"
    using a [rule_format, of 0] z n by auto
  moreover have "e ! 1 = fabs (fsub (flit 1) (fdiv (flit 3) (flit 4))) \<and> fle (flit 0) (e ! 1)"
    using a [rule_format, of 1] z n by auto
  ultimately show ?thesis using e z by auto
qed

text \<open>The claim as stated (every element non-negative) fails on a NaN: the reference
  has no zero, the error is a NaN, and \<^verbatim>\<open>0 <= nan\<close> is false.\<close>

theorem nan_error_is_not_nonnegative:
  "length [NaN] = length [flit 1] \<and> \<not> is_zero (flit 1)
   \<and> fractional_error (binary64 fpow) [NaN] [flit 1] = Inr [NaN] \<and> \<not> fle (flit 0) NaN"
  by (simp add: fractional_error_def broadcast_def binary64_sel flit_values fsub_def)

text \<open>
  C3 (amended). For every \<open>n < 0\<close> both functions fail and return no array. There is no
  check of the argument: for \<open>n < - 1\<close> the error is the \<^verbatim>\<open>ValueError\<close> of \<^verbatim>\<open>np.zeros(n+1)\<close>
  (negative dimensions), raised by the first statement; for \<open>n = - 1\<close> the array of length
  zero is created and the error is the \<^verbatim>\<open>IndexError\<close> of the store \<^verbatim>\<open>p[0] = 1\<close>.
\<close>

theorem negative_argument_fails:
  assumes "n < 0"
  shows "prec ar n = Inl (if n = - 1 then IndexOutOfBounds else NegativeDimensions)
       \<and> qrec ar n = Inl (if n = - 1 then IndexOutOfBounds else NegativeDimensions)"
  unfolding prec_def qrec_def prefix_negative [OF assms] by simp

theorem negative_argument_fails_witness:
  "(- 5 :: int) < 0 \<and> prec (binary64 fpow) (- 5) = Inl NegativeDimensions
     \<and> qrec (binary64 fpow) (- 5) = Inl NegativeDimensions"
proof -
  have h: "(- 5 :: int) < 0" by simp
  show ?thesis using h negative_argument_fails [OF h, of "binary64 fpow"] by simp
qed

text \<open>The claim as stated (one kind of error, the input rejected before any computation)
  fails at \<open>n = - 1\<close>: the allocation succeeds and the first store raises.\<close>

theorem minus_one_fails_at_the_first_store:
  "zeros (binary64 fpow) (- 1 + 1) = Inr []
   \<and> prec (binary64 fpow) (- 1) = Inl IndexOutOfBounds \<and> qrec (binary64 fpow) (- 1) = Inl IndexOutOfBounds
   \<and> prec (binary64 fpow) (- 1) \<noteq> Inl NegativeDimensions \<and> qrec (binary64 fpow) (- 1) \<noteq> Inl NegativeDimensions"
  by (simp add: prec_def qrec_def zeros_def setitem_def position_empty)

text \<open>
  C4. For \<open>n = 0\<close> the reference \<^verbatim>\<open>expected\<close> is \<open>[1.0]\<close>, but \<^verbatim>\<open>prec(0)\<close> and \<^verbatim>\<open>qrec(0)\<close> do not
  return \<open>[1.0]\<close>: the array has length one and the store \<^verbatim>\<open>p[1] = 1./3\<close> raises
  \<^verbatim>\<open>IndexError\<close>, against the docstring (all values from 0 up to and including \<open>n\<close>). The
  failure does not depend on the arithmetic \<open>ar\<close>.
\<close>

theorem zero_raises_index_error:
  "prec ar 0 = Inl IndexOutOfBounds \<and> qrec ar 0 = Inl IndexOutOfBounds
   \<and> expected (binary64 fpow) 0 = [Finite False 1]"
proof -
  have "prec ar 0 = Inl IndexOutOfBounds" "qrec ar 0 = Inl IndexOutOfBounds"
    using prefix_zero [of ar] unfolding prec_def qrec_def by simp_all
  moreover have "expected (binary64 fpow) 0 = [Finite False 1]"
    by (simp add: expected_0 binary64_sel f64_eval Finite_fm)
  ultimately show ?thesis by simp
qed




text \<open>
  C8. With exact rational arithmetic the two recurrences are the same function and
  equal the closed form: for every \<open>n \<ge> 1\<close>, \<^verbatim>\<open>prec(n)\<close> and \<^verbatim>\<open>qrec(n)\<close> both return the
  array of \<open>(1/3)^j\<close>, \<open>j = 0..n\<close>. For \<open>n = 0\<close> the closed form is \<open>[1]\<close>, and both functions
  raise \<^verbatim>\<open>IndexError\<close> at the store into \<open>p[1]\<close>, before the loop.
\<close>

theorem exact_recurrences_equal_reference:
  "prec exact 0 = Inl IndexOutOfBounds \<and> qrec exact 0 = Inl IndexOutOfBounds
   \<and> expected exact 0 = [1]
   \<and> (\<forall>n\<ge>1. prec exact n = Inr (expected exact n) \<and> qrec exact n = Inr (expected exact n)
         \<and> length (expected exact n) = nat (n + 1)
         \<and> (\<forall>j\<le>nat n. expected exact n ! j = (1 / 3) ^ j))"
proof -
  have zero: "prec exact 0 = Inl IndexOutOfBounds" "qrec exact 0 = Inl IndexOutOfBounds"
    using prefix_zero [of exact] unfolding prec_def qrec_def by simp_all
  have ref0: "expected exact 0 = [1]"
    by (simp add: expected_0 exact_sel)
  have pos: "prec exact n = Inr (expected exact n) \<and> qrec exact n = Inr (expected exact n)
         \<and> length (expected exact n) = nat (n + 1)
         \<and> (\<forall>j\<le>nat n. expected exact n ! j = (1 / 3) ^ j)" if "1 \<le> n" for n
  proof -
    define k where "k = nat n"
    have k: "1 \<le> k" "n = int k" using that by (simp_all add: k_def)
    have nth: "expected exact (int k) ! j = (1 / 3) ^ j" if "j \<le> k" for j
      unfolding expected_exact using that nth_map_upt [of j "Suc k" 0 "\<lambda>j. (1 / 3 :: rat) ^ j"]
      by simp
    have len: "length (expected exact (int k)) = Suc k"
      unfolding expected_exact by simp
    show ?thesis
      unfolding k(2) using prec_exact [OF k(1)] qrec_exact [OF k(1)] nth len by simp
  qed
  show ?thesis using zero ref0 pos by blast
qed

theorem exact_recurrences_equal_reference_witness:
  "(1::int) \<le> 3 \<and> prec exact 3 = Inr [1, 1 / 3, 1 / 9, 1 / 27]
   \<and> qrec exact 3 = Inr [1, 1 / 3, 1 / 9, 1 / 27] \<and> expected exact 3 = [1, 1 / 3, 1 / 9, 1 / 27]
   \<and> prec exact 0 = Inl IndexOutOfBounds"
proof -
  have h: "(1::int) \<le> 3" by simp
  have e: "expected exact 3 = [1, 1 / 3, 1 / 9, 1 / 27]"
    by (simp add: expected_def arange_def exact_sel upto_from_0_1)
  have "prec exact 3 = Inr (expected exact 3)" "qrec exact 3 = Inr (expected exact 3)"
    "prec exact 0 = Inl IndexOutOfBounds"
    using exact_recurrences_equal_reference h by blast+
  then show ?thesis using h e by simp
qed

text \<open>
  C10. For every \<open>n \<ge> 1\<close> the fractional errors of \<^verbatim>\<open>prec(n)\<close> and of \<^verbatim>\<open>qrec(n)\<close> against
  \<^verbatim>\<open>expected\<close> are exactly \<open>+0.0\<close> at the indices 0 and 1: at index 0 the computed and the
  reference value are both \<open>1.0\<close>, at index 1 both are the binary64 quotient of \<open>1\<close> by \<open>3\<close>,
  so that each quotient is \<open>1.0\<close> and each error \<open>|1.0 - 1.0|\<close>. Of the library's \<^verbatim>\<open>pow\<close> this
  uses \<^verbatim>\<open>3.**0 = 1.0\<close> and \<^verbatim>\<open>3.**1 = 3.0\<close> only, which every faithful power returns.
\<close>

theorem first_two_errors_are_zero:
  assumes "1 \<le> n" and "faithful_pow pw 1"
  shows "\<exists>p q pe qe. prec (binary64 pw) n = Inr p \<and> qrec (binary64 pw) n = Inr q
           \<and> perr (binary64 pw) n = Inr pe \<and> qerr (binary64 pw) n = Inr qe
           \<and> p ! 0 = Finite False 1 \<and> q ! 0 = Finite False 1
           \<and> expected (binary64 pw) n ! 0 = Finite False 1
           \<and> p ! 1 = fdiv (flit 1) (flit 3) \<and> q ! 1 = fdiv (flit 1) (flit 3)
           \<and> expected (binary64 pw) n ! 1 = fdiv (flit 1) (flit 3)
           \<and> pe ! 0 = Finite False 0 \<and> pe ! 1 = Finite False 0
           \<and> qe ! 0 = Finite False 0 \<and> qe ! 1 = Finite False 0"
proof -
  define k where "k = nat n"
  have k: "1 \<le> k" "n = int k" "0 \<le> k" using assms(1) by (simp_all add: k_def)
  note two = first_two_any_pow [of pw, OF faithful_pow_0_1 [OF assms(2)]]
  have p: "map (pseq (binary64 pw)) [0..<Suc k] ! 0 = Finite False 1"
    "map (pseq (binary64 pw)) [0..<Suc k] ! 1 = fdiv (flit 1) (flit 3)"
    unfolding nth_map_upt_0 [OF k(3)] nth_map_upt_0 [OF k(1)] seq_first_two
    by (simp_all add: binary64_sel flit_values)
  have q: "map (qseq (binary64 pw)) [0..<Suc k] ! 0 = Finite False 1"
    "map (qseq (binary64 pw)) [0..<Suc k] ! 1 = fdiv (flit 1) (flit 3)"
    unfolding nth_map_upt_0 [OF k(3)] nth_map_upt_0 [OF k(1)] seq_first_two
    by (simp_all add: binary64_sel flit_values)
  have e: "expected (binary64 pw) (int k) ! 0 = Finite False 1"
    "expected (binary64 pw) (int k) ! 1 = fdiv (flit 1) (flit 3)"
    unfolding expected_closed nth_map_upt_0 [OF k(3)] nth_map_upt_0 [OF k(1)] binary64_sel
    using two(1,2) by simp_all
  let ?pe = "map (\<lambda>i. a_abs (binary64 pw) (a_sub (binary64 pw) (a_lit (binary64 pw) 1)
           (a_div (binary64 pw) (pseq (binary64 pw) i)
              (a_div (binary64 pw) (a_lit (binary64 pw) 1) (a_pow (binary64 pw) (a_lit (binary64 pw) 3) (int i))))))
           [0..<Suc k]"
  let ?qe = "map (\<lambda>i. a_abs (binary64 pw) (a_sub (binary64 pw) (a_lit (binary64 pw) 1)
           (a_div (binary64 pw) (qseq (binary64 pw) i)
              (a_div (binary64 pw) (a_lit (binary64 pw) 1) (a_pow (binary64 pw) (a_lit (binary64 pw) 3) (int i))))))
           [0..<Suc k]"
  have pe: "?pe ! 0 = Finite False 0" "?pe ! 1 = Finite False 0"
    unfolding nth_map_upt_0 [OF k(3)] nth_map_upt_0 [OF k(1)] seq_first_two binary64_sel
    using two(3,4) by simp_all
  have qe: "?qe ! 0 = Finite False 0" "?qe ! 1 = Finite False 0"
    unfolding nth_map_upt_0 [OF k(3)] nth_map_upt_0 [OF k(1)] seq_first_two binary64_sel
    using two(3,4) by simp_all
  show ?thesis
    unfolding k(2) prec_closed [OF k(1)] qrec_closed [OF k(1)] perr_closed [OF k(1)]
      qerr_closed [OF k(1)]
    using p q e pe qe by blast
qed

theorem first_two_errors_are_zero_witness:
  "(1::int) \<le> 40 \<and> faithful_pow fpow 1
   \<and> (\<exists>pe qe. perr (binary64 fpow) 40 = Inr pe \<and> qerr (binary64 fpow) 40 = Inr qe
      \<and> pe ! 0 = Finite False 0 \<and> pe ! 1 = Finite False 0
      \<and> qe ! 0 = Finite False 0 \<and> qe ! 1 = Finite False 0)"
proof -
  have h: "(1::int) \<le> 40" by simp
  have f: "faithful_pow fpow 1" by (rule faithful_pow_mono [OF faithful_pow_fpow]) simp
  show ?thesis using h f first_two_errors_are_zero [OF h f] by blast
qed

text \<open>
  C6. The reference \<^verbatim>\<open>expected\<close> is computed in binary64 throughout: its element \<open>k\<close> is the
  binary64 quotient of \<open>1.0\<close> by the binary64 power \<^verbatim>\<open>3.**k\<close>; no integer power and no
  integer division occurs. For \<open>N = 40\<close> and every faithful power, \<^verbatim>\<open>3.**40\<close> is one of the
  two binary64 numbers next to the integer \<open>3^40 = 12157665459056928801\<close>, and the element
  40 is positive and between \<open>8.22526333e-20\<close> and \<open>8.22526335e-20\<close>, the value
  \<open>8.22526334e-20\<close> that the notebook prints.
\<close>

theorem reference_in_binary64:
  assumes "faithful_pow pw 40"
  shows "expected (binary64 pw) N = map (\<lambda>k. fdiv (flit 1) (pw (flit 3) k)) [0..N]
   \<and> (pw (flit 3) 40 = Finite False 12157665459056928768
      \<or> pw (flit 3) 40 = Finite False 12157665459056930816)
   \<and> (\<exists>y. expected (binary64 pw) 40 ! 40 = Finite False y
          \<and> 822526333 / 10 ^ 28 < y \<and> y < 822526335 / 10 ^ 28)"
proof -
  have u: "expected (binary64 pw) N = map (\<lambda>k. fdiv (flit 1) (pw (flit 3) k)) [0..N]"
    by (simp add: expected_def arange_def binary64_sel)
  have f: "faithful_pow pw (int 40)" using assms by simp
  have c: "pw (flit 3) 40 = Finite False 12157665459056928768
      \<or> pw (flit 3) 40 = Finite False 12157665459056930816"
    using faithful_pow_nth [OF f order_refl] unfolding candidates_40 by simp
  have el: "expected (binary64 pw) 40 ! 40 = fdiv (flit 1) (pw (flit 3) 40)"
    using expected_closed [of "binary64 pw" 40] nth_map_upt_0 [of 40 40]
    by (simp add: binary64_sel del: upt_Suc)
  have b: "822526333 / 10 ^ 28 < (427080090007477 / 2 ^ 112 :: rat)"
    "(427080090007477 / 2 ^ 112 :: rat) < 822526335 / 10 ^ 28"
    "822526333 / 10 ^ 28 < (6833281440119631 / 2 ^ 116 :: rat)"
    "(6833281440119631 / 2 ^ 116 :: rat) < 822526335 / 10 ^ 28"
    by simp_all
  have "\<exists>y. expected (binary64 pw) 40 ! 40 = Finite False y
          \<and> 822526333 / 10 ^ 28 < y \<and> y < 822526335 / 10 ^ 28"
    using c unfolding el
  proof
    assume "pw (flit 3) 40 = Finite False 12157665459056928768"
    then show "\<exists>y. fdiv (flit 1) (pw (flit 3) 40) = Finite False y
          \<and> 822526333 / 10 ^ 28 < y \<and> y < 822526335 / 10 ^ 28"
      using reference_40(1) b(1,2) by (simp only:) blast
  next
    assume "pw (flit 3) 40 = Finite False 12157665459056930816"
    then show "\<exists>y. fdiv (flit 1) (pw (flit 3) 40) = Finite False y
          \<and> 822526333 / 10 ^ 28 < y \<and> y < 822526335 / 10 ^ 28"
      using reference_40(2) b(3,4) by (simp only:) blast
  qed
  then show ?thesis using u c by blast
qed

theorem reference_in_binary64_witness:
  "faithful_pow fpow 40 \<and> fpow (flit 3) 40 = Finite False 12157665459056928768
   \<and> expected (binary64 fpow) 40 ! 40 = Finite False (427080090007477 / 2 ^ 112)"
proof -
  have p: "fpow (flit 3) 40 = Finite False 12157665459056928768"
    by (simp add: f64_eval Finite_fm)
  have "expected (binary64 fpow) 40 = map (\<lambda>k. fdiv (flit 1) (fpow (flit 3) k)) [0..40]"
    using reference_in_binary64 [OF faithful_pow_fpow, of 40] by blast
  then have "expected (binary64 fpow) 40 ! 40 = fdiv (flit 1) (fpow (flit 3) 40)"
    using nth_map_upt_0 [of 40 40 "\<lambda>i. fdiv (flit 1) (fpow (flit 3) (int i))"]
    by (simp add: upto_map_int comp_def del: upt_Suc)
  then show ?thesis using p reference_40(1) faithful_pow_fpow by simp
qed

text \<open>
  C7. For \<open>N = 40\<close> and every faithful power, the fractional error of \<^verbatim>\<open>qrec\<close> exceeds that
  of \<^verbatim>\<open>prec\<close> at every index from 2 on (at the indices 0 and 1 both are zero, see C10);
  the error of \<^verbatim>\<open>qrec\<close> at index 40 exceeds \<open>1.0\<close>, and the error of \<^verbatim>\<open>prec\<close> at index 40 is
  below \<open>1e-6\<close>.
\<close>

theorem unstable_error_exceeds_stable_error:
  assumes "faithful_pow pw 40"
  shows "\<exists>pe qe. perr (binary64 pw) 40 = Inr pe \<and> qerr (binary64 pw) 40 = Inr qe
      \<and> length pe = 41 \<and> length qe = 41
      \<and> (\<forall>i. 2 \<le> i \<and> i \<le> 40 \<longrightarrow> flt (pe ! i) (qe ! i))
      \<and> flt (flit 1) (qe ! 40)
      \<and> flt (pe ! 40) (fdiv (flit 1) (flit 1000000))"
proof -
  let ?pe = "projr (perr (binary64 pw) (int 40))" and ?qe = "projr (qerr (binary64 pw) (int 40))"
  have n: "1 \<le> (40::nat)" by simp
  have f: "faithful_pow pw (int 40)" using assms by simp
  have P: "perr (binary64 pw) (int 40) = Inr ?pe" and Q: "qerr (binary64 pw) (int 40) = Inr ?qe"
    by (rule err_length [OF n])+
  have len: "length ?pe = 41" "length ?qe = 41"
    unfolding err_length(3,4) [OF n] by simp_all
  have cmp: "flt (?pe ! i) (?qe ! i)" if "2 \<le> i \<and> i \<le> 40" for i
  proof -
    have i: "i \<le> 40" using that by simp
    have "gap_at (projr (prec (binary64 pw) 40) ! i) (projr (qrec (binary64 pw) 40) ! i)
            (fdiv (flit 1) (pw (flit 3) (int i)))"
      using gap_all [rule_format, OF that] faithful_pow_nth [OF f i] by blast
    then show ?thesis
      unfolding err_nth [OF n i] gap_at_def by simp
  qed
  have e: "flt (flit 1) (?qe ! 40)" "flt (?pe ! 40) (fdiv (flit 1) (flit 1000000))"
    unfolding err_nth [OF n order_refl]
    using ends_40 [of pw, rule_format, OF faithful_pow_nth [OF f order_refl]] by simp_all
  show ?thesis using P Q len cmp e by (simp only: of_nat_numeral) blast
qed

theorem unstable_error_exceeds_stable_error_witness:
  "faithful_pow fpow 40 \<and> (2::nat) \<le> 20 \<and> (20::nat) \<le> 40
   \<and> (\<exists>pe qe. perr (binary64 fpow) 40 = Inr pe \<and> qerr (binary64 fpow) 40 = Inr qe
         \<and> flt (pe ! 20) (qe ! 20) \<and> flt (flit 1) (qe ! 40)
         \<and> flt (pe ! 40) (fdiv (flit 1) (flit 1000000)))"
proof -
  obtain pe qe where r: "perr (binary64 fpow) 40 = Inr pe" "qerr (binary64 fpow) 40 = Inr qe"
      "\<forall>i. 2 \<le> i \<and> i \<le> 40 \<longrightarrow> flt (pe ! i) (qe ! i)"
      "flt (flit 1) (qe ! 40)" "flt (pe ! 40) (fdiv (flit 1) (flit 1000000))"
    using unstable_error_exceeds_stable_error [OF faithful_pow_fpow] by blast
  have "flt (pe ! 20) (qe ! 20)" using r(3) by simp
  then show ?thesis using r faithful_pow_fpow by auto
qed

end
